theory Spec2Isabelle
  imports Main
begin

section \<open>JavaScript strings\<close>

text \<open>
  A JavaScript string is modelled as a \<open>string\<close>: a list of code units below 256.
  The operations below are the built-ins the compiler calls, restricted to that range
  (the white space of \<open>String.prototype.trim\<close> beyond U+00FF is out of the model).
\<close>

definition isWhiteSpace :: "char \<Rightarrow> bool" where
  "isWhiteSpace c =
     (c = CHR 0x09 \<or> c = CHR 0x0A \<or> c = CHR 0x0B \<or> c = CHR 0x0C \<or> c = CHR 0x0D
      \<or> c = CHR 0x20 \<or> c = CHR 0xA0)"

definition trimStart :: "string \<Rightarrow> string" where
  "trimStart s = dropWhile isWhiteSpace s"

definition trimEnd :: "string \<Rightarrow> string" where
  "trimEnd s = rev (dropWhile isWhiteSpace (rev s))"

definition trim :: "string \<Rightarrow> string" where
  "trim s = trimEnd (trimStart s)"

definition startsWith :: "string \<Rightarrow> string \<Rightarrow> bool" where
  "startsWith s p = (take (length p) s = p)"

text \<open>\<open>s.indexOf(c)\<close> for a one-character needle: the first position, or -1.\<close>

definition indexOf :: "string \<Rightarrow> char \<Rightarrow> int" where
  "indexOf s c = (if c \<in> set s then int (length (takeWhile (\<lambda>x. x \<noteq> c) s)) else - 1)"

text \<open>
  \<open>s.split(sep)\<close> where the separator matches exactly one character: \<open>':'\<close>,
  \<open>'\n'\<close>, or the class \<open>/[\|\.]/\<close>. The empty string splits into one empty part.
\<close>

fun splitBy :: "(char \<Rightarrow> bool) \<Rightarrow> string \<Rightarrow> string list" where
  "splitBy p [] = [[]]"
| "splitBy p (c # cs) =
     (if p c then [] # splitBy p cs
      else (case splitBy p cs of [] \<Rightarrow> [[c]] | w # ws \<Rightarrow> (c # w) # ws))"

text \<open>\<open>s.replace(/[class]+/g, r)\<close>: every maximal run of class characters becomes \<open>r\<close>.\<close>

function replaceRuns :: "(char \<Rightarrow> bool) \<Rightarrow> string \<Rightarrow> string \<Rightarrow> string" where
  "replaceRuns p r [] = []"
| "replaceRuns p r (c # cs) =
     (if p c then r @ replaceRuns p r (dropWhile p cs) else c # replaceRuns p r cs)"
  by pat_completeness auto
termination
  by (relation "measure (\<lambda>(p, r, s). length s)")
     (auto simp: less_Suc_eq_le length_dropWhile_le)

text \<open>\<open>s.replace(/class/g, r)\<close>: every class character becomes \<open>r\<close>.\<close>

definition replaceEach :: "(char \<Rightarrow> bool) \<Rightarrow> string \<Rightarrow> string \<Rightarrow> string" where
  "replaceEach p r s = concat (map (\<lambda>c. if p c then r else [c]) s)"

text \<open>The decimal numeral of a number, as a template literal prints a \<open>refId\<close>.\<close>

fun decimal :: "nat \<Rightarrow> string" where
  "decimal n =
     (if n < 10 then [''0123456789'' ! n]
      else decimal (n div 10) @ [''0123456789'' ! (n mod 10)])"

declare decimal.simps [simp del]

text \<open>\<open>JSON.stringify\<close> of a string: quoted, with the escapes of ECMA-262 24.5.2.2.\<close>

definition hexDigit :: "nat \<Rightarrow> char" where
  "hexDigit n = ''0123456789abcdef'' ! n"

definition quoteJSONChar :: "char \<Rightarrow> string" where
  "quoteJSONChar c =
     (if c = CHR 0x22 then [CHR 0x5C, CHR 0x22]
      else if c = CHR 0x5C then [CHR 0x5C, CHR 0x5C]
      else if c = CHR 0x08 then [CHR 0x5C, CHR ''b'']
      else if c = CHR 0x0C then [CHR 0x5C, CHR ''f'']
      else if c = CHR 0x0A then [CHR 0x5C, CHR ''n'']
      else if c = CHR 0x0D then [CHR 0x5C, CHR ''r'']
      else if c = CHR 0x09 then [CHR 0x5C, CHR ''t'']
      else if (of_char c :: nat) < 32
        then [CHR 0x5C, CHR ''u'', CHR ''0'', CHR ''0'',
              hexDigit (of_char c div 16), hexDigit (of_char c mod 16)]
      else [c])"

definition JSON_stringify :: "string \<Rightarrow> string" where
  "JSON_stringify s = [CHR 0x22] @ concat (map quoteJSONChar s) @ [CHR 0x22]"

section \<open>The parsed tree\<close>

text \<open>
  \<open>NodeAttribute\<close>, \<open>TextNode\<close> and \<open>TagNode\<close> of the parser. The \<open>parent\<close>
  back-reference of a node is not a field here: \<open>parse\<close> fills \<open>children\<close> with exactly
  the nodes whose \<open>parent\<close> is the node, so the parent of a node is the node that holds
  it, and the functions that follow \<open>node.parent\<close> take the chain of enclosing nodes,
  nearest first. \<open>startIndex\<close> and \<open>endIndex\<close> are never read by the compiler.
\<close>

datatype nodeAttribute = NodeAttribute (attr_name: string) (attr_value: string)

datatype node =
    TextNode (refId: nat) (textContent: string)
  | TagNode (refId: nat) (tag: string) (attributes: "nodeAttribute list") (children: "node list")

fun isTextNode :: "node \<Rightarrow> bool" where
  "isTextNode (TextNode _ _) = True"
| "isTextNode (TagNode _ _ _ _) = False"

fun isTagNode :: "node \<Rightarrow> bool" where
  "isTagNode (TextNode _ _) = False"
| "isTagNode (TagNode _ _ _ _) = True"

subsection \<open>normalizeAttributes\<close>

text \<open>
  The parser's character class \<open>[\r\n\x0B\x0C\u0085]\<close>, which in the source also
  lists U+2028 and U+2029 (code units outside the model).
\<close>

definition isNewline :: "char \<Rightarrow> bool" where
  "isNewline c =
     (c = CHR 0x0D \<or> c = CHR 0x0A \<or> c = CHR 0x0B \<or> c = CHR 0x0C \<or> c = CHR 0x85)"

text \<open>
  \<open>attrs\<close> is the tokenizer's object of attributes, in key order; each value goes
  through \<open>.replace(/[class]+/g, ' ').trim()\<close> with that class.
\<close>

definition normalizeAttributes :: "(string \<times> string) list \<Rightarrow> nodeAttribute list" where
  "normalizeAttributes attrs =
     map (\<lambda>(name, v). NodeAttribute name (trim (replaceRuns isNewline '' '' v))) attrs"

text \<open>
  The older parser's \<open>normalizeAttribute\<close>, for a string value:
  \<open>value.replace(/\s/g, ' ').replace(/\s\s+/g, ' ').trim()\<close>, the name trimmed.
\<close>

function replaceLongRuns :: "(char \<Rightarrow> bool) \<Rightarrow> string \<Rightarrow> string \<Rightarrow> string" where
  "replaceLongRuns p r [] = []"
| "replaceLongRuns p r [c] = [c]"
| "replaceLongRuns p r (c # d # cs) =
     (if p c \<and> p d then r @ replaceLongRuns p r (dropWhile p cs)
      else c # replaceLongRuns p r (d # cs))"
  by pat_completeness auto
termination
  by (relation "measure (\<lambda>(p, r, s). length s)")
     (auto simp: less_Suc_eq_le intro: le_SucI length_dropWhile_le)

definition normalizeAttribute :: "string \<Rightarrow> string \<Rightarrow> nodeAttribute" where
  "normalizeAttribute name v =
     NodeAttribute (trim name)
       (trim (replaceLongRuns isWhiteSpace '' '' (replaceEach isWhiteSpace '' '' v)))"

subsection \<open>The object of attributes\<close>

text \<open>
  Modelled from the spec: the tokenizer (htmlparser2) is missing from the sources. The
  spec has it supply, per element, "an attribute-name to raw-value map", which \<open>parse\<close>
  receives in \<open>onopentag\<close> as the object \<open>attribs\<close>. A map holds one value per name: the
  tokenizer sets a name only when the object does not hold it yet, so of two attributes
  of a tag with the same name the first stays. The name \<open>__proto__\<close> is never held:
  assigning a string to it leaves a JavaScript object as it is. \<open>written\<close> is the list
  of the attributes in the order they are written in the tag; the result lists the
  properties of the object in the order they were set.
\<close>

definition attribs :: "(string \<times> string) list \<Rightarrow> (string \<times> string) list" where
  "attribs written =
     fold (\<lambda>(name, v) obj.
             if name = ''__proto__'' \<or> name \<in> set (map fst obj) then obj else obj @ [(name, v)])
       written []"

text \<open>
  \<open>Object.keys(attrs)\<close>, with the value of each key: the names that are array indices
  (the canonical numerals below \<open>2^32 - 1\<close>) in ascending order, then the other names in
  the order they were set.
\<close>

definition numberOf :: "string \<Rightarrow> int" where
  "numberOf s = fold (\<lambda>c n. 10 * n + (of_char c - 48)) s 0"

definition isArrayIndex :: "string \<Rightarrow> bool" where
  "isArrayIndex s =
     (s \<noteq> [] \<and> list_all (\<lambda>c. c \<in> set ''0123456789'') s \<and> (s = ''0'' \<or> hd s \<noteq> CHR ''0'')
      \<and> numberOf s < 4294967295)"

definition keyOrder :: "(string \<times> string) list \<Rightarrow> (string \<times> string) list" where
  "keyOrder obj =
     sort_key (\<lambda>(name, v). numberOf name) (filter (\<lambda>(name, v). isArrayIndex name) obj)
     @ filter (\<lambda>(name, v). \<not> isArrayIndex name) obj"

section \<open>The attribute classifier\<close>

datatype declaredAttribute =
    VariableAttribute (va_name: string) (va_variable: string)
  | RefAttribute (ra_name: string)
  | EventAttribute (eventName: string) (modifiers: "string list") (variableName: string)
  | GenericAttribute (ga_name: string) (ga_value: string)

text \<open>
  Two imports of the compiler are not part of the sources at hand and stay parameters:
  \<open>decode\<close> of the package html-entities, and \<open>trimAny\<close> of \<open>./utils\<close>. Every
  theorem below holds for any choice of the two.
\<close>

record env =
  decode :: "string \<Rightarrow> string"
  trimAny :: "string \<Rightarrow> string list \<Rightarrow> string"

definition compileAttribute :: "env \<Rightarrow> nodeAttribute \<Rightarrow> declaredAttribute option" where
  "compileAttribute env a =
     (let name = attr_name a; v = attr_value a in
      if startsWith name ''='' then None
      else if name = ''#ref'' then
        Some (RefAttribute (if trim v = [] then ''el'' else trim v))
      else if startsWith name ''{'' then
        (let variableName = trim (trimAny env name [''{'', ''}''])
         in Some (VariableAttribute variableName variableName))
      else if startsWith v ''{'' then
        (if indexOf name CHR '':'' > 0 then
           (let eventParts = splitBy (\<lambda>c. c = CHR '':'') name;
                on = eventParts ! 0;
                eventNameParts = splitBy (\<lambda>c. c = CHR ''|'' \<or> c = CHR ''.'') (eventParts ! 1)
            in if on = ''on'' then
                 Some (EventAttribute (eventNameParts ! 0) (tl eventNameParts)
                         (trim (trimAny env v [''{'', ''}''])))
               else Some (VariableAttribute name (trim (trimAny env v [''{'', ''}'']))))
         else Some (VariableAttribute name (trim (trimAny env v [''{'', ''}'']))))
      else Some (GenericAttribute name v))"

section \<open>The node compiler\<close>

datatype nodeType = TypeText | TypeSvg | TypeElement

text \<open>
  \<open>TextElementNode\<close> and \<open>ElementNode\<close>. A declared node holds its declared parent by
  value, as the parent was when the child was declared; the generator reads only the
  parent's name through it.
\<close>

datatype declaredNode =
    TextElementNode (d_node: node) (d_parent: "declaredNode option") (d_content: string)
  | ElementNode (d_node: node) (d_parent: "declaredNode option") (d_type: nodeType)
      (d_tag: string) (d_refTag: "string option") (d_events: "declaredAttribute list")
      (d_variableAttributes: "declaredAttribute list") (d_attributes: "declaredAttribute list")
      (d_children: "declaredNode list")
where
  "d_type (TextElementNode n p c) = TypeText"

fun isSvgNode :: "node \<Rightarrow> bool" where
  "isSvgNode (TagNode _ tg _ _) = (tg = ''svg'')"
| "isSvgNode (TextNode _ _) = False"

text \<open>\<open>hasSvgParent\<close> follows \<open>node.parent\<close>: here the chain of enclosing nodes.\<close>

fun hasSvgParent :: "node list \<Rightarrow> bool" where
  "hasSvgParent [] = False"
| "hasSvgParent (parent # anc) = (isSvgNode parent \<or> hasSvgParent anc)"

definition shouldRenderAsSvg :: "node list \<Rightarrow> node \<Rightarrow> bool" where
  "shouldRenderAsSvg anc nd = (isSvgNode nd \<or> hasSvgParent anc)"

fun isRefAttribute :: "declaredAttribute \<Rightarrow> bool" where
  "isRefAttribute (RefAttribute _) = True"
| "isRefAttribute _ = False"

fun isEventAttribute :: "declaredAttribute \<Rightarrow> bool" where
  "isEventAttribute (EventAttribute _ _ _) = True"
| "isEventAttribute _ = False"

fun isVariableAttribute :: "declaredAttribute \<Rightarrow> bool" where
  "isVariableAttribute (VariableAttribute _ _) = True"
| "isVariableAttribute _ = False"

fun isGenericAttribute :: "declaredAttribute \<Rightarrow> bool" where
  "isGenericAttribute (GenericAttribute _ _) = True"
| "isGenericAttribute _ = False"

text \<open>\<open>compileNode\<close>: the compiled node's parent is always null.\<close>

fun compileNode :: "env \<Rightarrow> node list \<Rightarrow> node \<Rightarrow> declaredNode" where
  "compileNode env anc (TextNode r t) =
     TextElementNode (TextNode r t) None (decode env t)"
| "compileNode env anc (TagNode r tg as cs) =
     (let attrs = List.map_filter (compileAttribute env) as;
          refTag = (case find isRefAttribute attrs of
                      None \<Rightarrow> None
                    | Some a \<Rightarrow> if ra_name a = [] then None else Some (ra_name a));
          events = filter isEventAttribute attrs;
          variableAttributes = filter isVariableAttribute attrs;
          attributes = filter isGenericAttribute attrs
      in ElementNode (TagNode r tg as cs) None
           (if shouldRenderAsSvg anc (TagNode r tg as cs) then TypeSvg else TypeElement)
           tg refTag events variableAttributes attributes [])"

section \<open>reduce\<close>

text \<open>
  \<open>reduce\<close> with the callback \<open>compile\<close> passes to it. The callback declares the node,
  stores the parent that \<open>getParent\<close> found in the map \<open>nodeTo\<close>, and pushes the
  declared node onto that parent's \<open>children\<close> unless the parent is a text node.
  On the trees \<open>parse\<close> returns every \<open>refId\<close> is used once, and the parent found in
  the map is the declared node of the enclosing tag: the pushes of a node's children
  land in that node, in order. The model builds \<open>children\<close> there, from the children
  that were pushed at all.
\<close>

fun withParent :: "declaredNode \<Rightarrow> declaredNode option \<Rightarrow> declaredNode" where
  "withParent (TextElementNode n _ c) parent = TextElementNode n parent c"
| "withParent (ElementNode n _ ty tg rt ev va at ch) parent =
     ElementNode n parent ty tg rt ev va at ch"

definition visit :: "env \<Rightarrow> node list \<Rightarrow> node \<Rightarrow> declaredNode option \<Rightarrow> declaredNode" where
  "visit env anc nd parent = withParent (compileNode env anc nd) parent"

fun getParent :: "(nat \<rightharpoonup> declaredNode) \<Rightarrow> node list \<Rightarrow> declaredNode option" where
  "getParent nodeTo [] = None"
| "getParent nodeTo (parent # anc) = nodeTo (refId parent)"

definition pushed :: "declaredNode \<Rightarrow> bool" where
  "pushed compiled =
     (case d_parent compiled of None \<Rightarrow> False | Some parent \<Rightarrow> d_type parent \<noteq> TypeText)"

fun pushChildren :: "declaredNode \<Rightarrow> declaredNode list \<Rightarrow> declaredNode" where
  "pushChildren (TextElementNode n p c) kids = TextElementNode n p c"
| "pushChildren (ElementNode n p ty tg rt ev va at ch) kids =
     ElementNode n p ty tg rt ev va at (ch @ filter pushed kids)"

fun reduceWalk ::
    "env \<Rightarrow> node list \<Rightarrow> (nat \<rightharpoonup> declaredNode) \<Rightarrow> node list
       \<Rightarrow> declaredNode list \<times> (nat \<rightharpoonup> declaredNode)"
  and reduceNode ::
    "env \<Rightarrow> node list \<Rightarrow> (nat \<rightharpoonup> declaredNode) \<Rightarrow> node
       \<Rightarrow> declaredNode \<times> (nat \<rightharpoonup> declaredNode)"
where
  "reduceWalk env anc nodeTo [] = ([], nodeTo)"
| "reduceWalk env anc nodeTo (nd # nodes) =
     (let (reduced, nodeTo1) = reduceNode env anc nodeTo nd;
          (rest, nodeTo2) = reduceWalk env anc nodeTo1 nodes
      in (reduced # rest, nodeTo2))"
| "reduceNode env anc nodeTo (TextNode r t) =
     (let reduced = visit env anc (TextNode r t) (getParent nodeTo anc)
      in (reduced, nodeTo(r \<mapsto> reduced)))"
| "reduceNode env anc nodeTo (TagNode r tg as cs) =
     (let reduced = visit env anc (TagNode r tg as cs) (getParent nodeTo anc);
          (kids, nodeTo1) = reduceWalk env (TagNode r tg as cs # anc) (nodeTo(r \<mapsto> reduced)) cs
      in (pushChildren reduced kids, nodeTo1))"

definition reduce :: "env \<Rightarrow> node list \<Rightarrow> declaredNode list" where
  "reduce env nodes = fst (reduceWalk env [] Map.empty nodes)"

section \<open>The code generator\<close>

record prepared =
  rootNodes :: "declaredNode list"
  templates :: "declaredNode list"
  scripts :: "declaredNode list"
  styles :: "declaredNode list"

definition prepareStep :: "declaredNode \<Rightarrow> prepared \<Rightarrow> prepared" where
  "prepareStep nd acc =
     (if d_parent nd \<noteq> None then acc
      else if d_type nd = TypeElement \<and> d_tag nd = ''template''
        then acc\<lparr>templates := templates acc @ [nd]\<rparr>
      else if d_type nd = TypeElement \<and> d_tag nd = ''script''
        then acc\<lparr>scripts := scripts acc @ [nd]\<rparr>
      else if d_type nd = TypeElement \<and> d_tag nd = ''style''
        then acc\<lparr>styles := styles acc @ [nd]\<rparr>
      else acc\<lparr>rootNodes := rootNodes acc @ [nd]\<rparr>)"

definition prepareNodes :: "declaredNode list \<Rightarrow> prepared" where
  "prepareNodes nodes =
     fold prepareStep nodes \<lparr>rootNodes = [], templates = [], scripts = [], styles = []\<rparr>"

definition nameof :: "declaredNode \<Rightarrow> string" where
  "nameof nd =
     (case (if d_type nd = TypeText then None else d_refTag nd) of
        Some name \<Rightarrow> if name \<noteq> [] then name else ''el'' @ decimal (refId (d_node nd))
      | None \<Rightarrow> ''el'' @ decimal (refId (d_node nd)))"

text \<open>The body of the loop over \<open>node.attributes\<close> in \<open>compileHtml\<close>.\<close>

fun attributeCode :: "declaredNode \<Rightarrow> declaredAttribute \<Rightarrow> string \<Rightarrow> string" where
  "attributeCode nd (GenericAttribute name v) code =
     (if name \<in> set [''width'', ''height''] then
        code @ nameof nd @ ''.'' @ name @ '' = '' @ JSON_stringify v @ '';\<newline>''
      else if name = ''class'' then
        code @ nameof nd @ ''.className = '' @ JSON_stringify v @ '';\<newline>''
      else if name = ''style'' then
        code @ nameof nd @ ''.style.cssText = '' @ JSON_stringify v @ '';\<newline>''
      else
        code @ nameof nd @ ''.setAttribute('' @ JSON_stringify name @ '', ''
          @ JSON_stringify v @ '');\<newline>'')"
| "attributeCode nd _ code = code"

definition compileHtml :: "declaredNode \<Rightarrow> string" where
  "compileHtml nd =
     (let code = [];
          code =
            (if d_type nd = TypeText then
               code @ ''const '' @ nameof nd @ '' = document.createTextNode(''
                 @ JSON_stringify (d_content nd) @ '');\<newline>''
             else
               (let code =
                  (if d_type nd = TypeSvg then
                     code @ ''const '' @ nameof nd
                       @ '' = document.createElementNS(\"http://www.w3.org/2000/svg\", \"''
                       @ d_tag nd @ ''\");\<newline>''
                   else
                     code @ ''const '' @ nameof nd @ '' = document.createElement(\"''
                       @ d_tag nd @ ''\");\<newline>'')
                in fold (attributeCode nd) (d_attributes nd) code));
          code =
            (case d_parent nd of
               Some parent \<Rightarrow> code @ nameof parent @ ''.appendChild('' @ nameof nd @ '');\<newline>''
             | None \<Rightarrow> code)
      in code @ ''\<newline>'')"

fun walkDeclared :: "declaredNode list \<Rightarrow> (declaredNode \<Rightarrow> 's \<Rightarrow> 's) \<Rightarrow> 's \<Rightarrow> 's" where
  "walkDeclared [] visitor s = s"
| "walkDeclared (TextElementNode n p c # nodes) visitor s =
     walkDeclared nodes visitor (visitor (TextElementNode n p c) s)"
| "walkDeclared (ElementNode n p ty tg rt ev va at ch # nodes) visitor s =
     walkDeclared nodes visitor
       (let s1 = visitor (ElementNode n p ty tg rt ev va at ch) s
        in if ty \<noteq> TypeText then walkDeclared ch visitor s1 else s1)"

definition indentStep :: "string \<Rightarrow> string \<Rightarrow> string" where
  "indentStep part code =
     (let part = trim part;
          code = (if part \<noteq> [] then code @ ''  '' @ part else code)
      in code @ ''\<newline>'')"

definition indent :: "string \<Rightarrow> string" where
  "indent s = fold indentStep (splitBy (\<lambda>c. c = CHR 0x0A) s) []"

type_synonym bindEvent = "declaredNode \<times> declaredAttribute"

definition emitNode :: "declaredNode \<Rightarrow> string \<times> bindEvent list \<Rightarrow> string \<times> bindEvent list" where
  "emitNode nd = (\<lambda>(compiledCode, events).
     (let compiledCode = compiledCode @ indent (trim (compileHtml nd));
          compiledCode = compiledCode @ ''\<newline>'';
          events =
            (if d_type nd \<noteq> TypeText
             then fold (\<lambda>event events. events @ [(nd, event)]) (d_events nd) events
             else events)
      in (compiledCode, events)))"

definition spliceScript :: "declaredNode \<Rightarrow> string \<Rightarrow> string" where
  "spliceScript nd compiledCode =
     (if d_type nd = TypeText
      then compiledCode @ trim (d_content nd) @ ''\<newline>'' @ ''\<newline>''
      else compiledCode)"

definition bindCode :: "bindEvent \<Rightarrow> string \<Rightarrow> string" where
  "bindCode = (\<lambda>(nd, event) compiledCode.
     compiledCode @ ''  '' @ nameof nd @ ''.addEventListener(''
       @ JSON_stringify (eventName event) @ '', '' @ variableName event @ '')\<newline>'')"

text \<open>\<open>compile\<close> on parsed nodes (the overload on a string parses it first).\<close>

definition compile :: "env \<Rightarrow> node list \<Rightarrow> string" where
  "compile env parsedNodes =
     (let prep = prepareNodes (reduce env parsedNodes);
          compiledCode = ''export function compile() {\<newline>'';
          (compiledCode, events) = walkDeclared (rootNodes prep) emitNode (compiledCode, []);
          compiledCode = walkDeclared (scripts prep) spliceScript compiledCode;
          compiledCode = fold bindCode events compiledCode
      in compiledCode @ ''}\<newline>'')"

section \<open>The older compiler\<close>

text \<open>
  The sources also hold an older \<open>compile\<close>, written over the older parser. Its nodes are
  the nodes above under other field names (a text node has \<open>content\<close> for
  \<open>textContent\<close>; a tag node has \<open>attrs\<close> for \<open>attributes\<close> and \<open>content\<close> for
  \<open>children\<close>), and its \<open>shouldRenderAsSvg\<close>, always called with \<open>autoSvg = true\<close>, is
  the function above. Where the code reads \<open>node.parent\<close> the model has the chain of
  enclosing nodes, as before. The one place that can throw is the read of the first
  script's first child.
\<close>

datatype error = TypeError

record legacyRoots =
  l_nodes :: "node list"
  l_templates :: "node list"
  l_scripts :: "node list"
  l_styles :: "node list"

text \<open>
  The loop that removes the top-level special elements runs from the last node to the
  first; \<open>splice\<close> keeps the other nodes in their order.
\<close>

definition legacyRemoveStep :: "node \<Rightarrow> legacyRoots \<Rightarrow> legacyRoots" where
  "legacyRemoveStep nd s =
     (if isTagNode nd \<and> tag nd = ''template'' then s\<lparr>l_templates := l_templates s @ [nd]\<rparr>
      else if isTagNode nd \<and> tag nd = ''script'' then s\<lparr>l_scripts := l_scripts s @ [nd]\<rparr>
      else if isTagNode nd \<and> tag nd = ''style'' then s\<lparr>l_styles := l_styles s @ [nd]\<rparr>
      else s\<lparr>l_nodes := nd # l_nodes s\<rparr>)"

definition legacyRemove :: "node list \<Rightarrow> legacyRoots" where
  "legacyRemove nodes =
     fold legacyRemoveStep (rev nodes)
       \<lparr>l_nodes = [], l_templates = [], l_scripts = [], l_styles = []\<rparr>"

text \<open>\<open>walk\<close> of the parser; the visitor is given the chain of enclosing nodes as well.\<close>

fun walk :: "node list \<Rightarrow> node list \<Rightarrow> (node list \<Rightarrow> node \<Rightarrow> 's \<Rightarrow> 's) \<Rightarrow> 's \<Rightarrow> 's" where
  "walk anc [] visitor s = s"
| "walk anc (TextNode r t # nodes) visitor s =
     walk anc nodes visitor (visitor anc (TextNode r t) s)"
| "walk anc (TagNode r tg as cs # nodes) visitor s =
     walk anc nodes visitor
       (walk (TagNode r tg as cs # anc) cs visitor (visitor anc (TagNode r tg as cs) s))"

text \<open>\<open>flat\<close>: every node once, keyed by \<open>refId\<close>, each with its chain of enclosing nodes.\<close>

definition flatStep ::
    "node list \<Rightarrow> node \<Rightarrow> nat set \<times> (node list \<times> node) list \<Rightarrow> nat set \<times> (node list \<times> node) list" where
  "flatStep anc nd = (\<lambda>(nodeSet, flatNodes).
     if refId nd \<notin> nodeSet then (insert (refId nd) nodeSet, flatNodes @ [(anc, nd)])
     else (nodeSet, flatNodes))"

definition flat :: "node list \<Rightarrow> (node list \<times> node) list" where
  "flat nodes = snd (walk [] nodes flatStep ({}, []))"

text \<open>The map \<open>nodeRefToVariable\<close> and \<open>getVariableName\<close>.\<close>

definition legacyNameStep :: "node list \<Rightarrow> node \<Rightarrow> (nat \<rightharpoonup> string) \<Rightarrow> (nat \<rightharpoonup> string)" where
  "legacyNameStep anc nd m =
     (let name =
        (case nd of
           TagNode r tg as cs \<Rightarrow>
             (case find (\<lambda>a. attr_name a = ''#ref'') as of
                Some a \<Rightarrow> if attr_value a = [] then ''el'' else attr_value a
              | None \<Rightarrow> ''el'' @ decimal r)
         | TextNode r t \<Rightarrow> ''el'' @ decimal r)
      in case m (refId nd) of
           Some known \<Rightarrow> if known \<noteq> [] then m else m(refId nd \<mapsto> name)
         | None \<Rightarrow> m(refId nd \<mapsto> name))"

definition getVariableName :: "(nat \<rightharpoonup> string) \<Rightarrow> node \<Rightarrow> string" where
  "getVariableName m nd =
     (case m (refId nd) of
        Some name \<Rightarrow> if name \<noteq> [] then name else ''el'' @ decimal (refId nd)
      | None \<Rightarrow> ''el'' @ decimal (refId nd))"

record legacyState =
  l_code :: string
  l_exportNodes :: "node list"
  l_variableExport :: "(node \<times> string \<times> string) list"
  l_eventHandlers :: "(node \<times> string \<times> string) list"

text \<open>The body of the loop over \<open>node.attrs\<close>.\<close>

definition legacyAttribute ::
    "env \<Rightarrow> (nat \<rightharpoonup> string) \<Rightarrow> node \<Rightarrow> nodeAttribute \<Rightarrow> legacyState \<Rightarrow> legacyState" where
  "legacyAttribute env m nd a s =
     (let name = attr_name a; v = attr_value a in
      if startsWith name ''='' then s
      else if startsWith name ''{'' then
        (let variable = trim (trimAny env name [''{'', ''}''])
         in s\<lparr>l_variableExport := l_variableExport s @ [(nd, variable, variable)]\<rparr>)
      else if startsWith v ''{'' then
        (if indexOf name CHR '':'' > 0 then
           (let eventParts = splitBy (\<lambda>c. c = CHR '':'') name;
                on = eventParts ! 0;
                eventNameParts = splitBy (\<lambda>c. c = CHR ''|'') (eventParts ! 1)
            in if on = ''on'' then
                 s\<lparr>l_eventHandlers := l_eventHandlers s
                      @ [(nd, eventNameParts ! 0, trim (trimAny env v [''{'', ''}'']))]\<rparr>
               else s)
         else s)
      else s\<lparr>l_code := l_code s @ ''  '' @ getVariableName m nd @ ''.setAttribute(''
                @ JSON_stringify name @ '', '' @ JSON_stringify v @ '');\<newline>''\<rparr>)"

text \<open>The body of the loop over \<open>flat(nodes)\<close>.\<close>

definition legacyEmit ::
    "env \<Rightarrow> (nat \<rightharpoonup> string) \<Rightarrow> node list \<Rightarrow> node list \<times> node \<Rightarrow> legacyState \<Rightarrow> legacyState" where
  "legacyEmit env m tpls = (\<lambda>(anc, nd) s.
     (let s =
        (case nd of
           TextNode r t \<Rightarrow>
             s\<lparr>l_code := l_code s @ ''  const '' @ getVariableName m nd
                  @ '' = document.createTextNode('' @ JSON_stringify (decode env t) @ '');\<newline>''\<rparr>
         | TagNode r tg as cs \<Rightarrow>
             (if shouldRenderAsSvg anc nd then
                s\<lparr>l_code := l_code s @ ''  const '' @ getVariableName m nd
                     @ '' = document.createElementNS(\"http://www.w3.org/2000/svg\", \"''
                     @ tg @ ''\");\<newline>''\<rparr>
              else
                s\<lparr>l_code := l_code s @ ''  const '' @ getVariableName m nd
                     @ '' = document.createElement(\"'' @ tg @ ''\");\<newline>''\<rparr>));
          s = (case nd of
                 TextNode r t \<Rightarrow> s
               | TagNode r tg as cs \<Rightarrow> fold (legacyAttribute env m nd) as s);
          s = (case anc of
                 [] \<Rightarrow> s\<lparr>l_exportNodes := l_exportNodes s @ [nd]\<rparr>
               | parent # _ \<Rightarrow>
                   if \<exists>root\<in>set tpls. refId parent = refId root
                   then s\<lparr>l_exportNodes := l_exportNodes s @ [nd]\<rparr>
                   else s\<lparr>l_code := l_code s @ ''  '' @ getVariableName m parent
                          @ ''.appendChild('' @ getVariableName m nd @ '');\<newline>''\<rparr>)
      in s\<lparr>l_code := l_code s @ ''\<newline>''\<rparr>))"

fun joinWith :: "string \<Rightarrow> string list \<Rightarrow> string" where
  "joinWith sep [] = []"
| "joinWith sep [x] = x"
| "joinWith sep (x # y # xs) = x @ sep @ joinWith sep (y # xs)"

text \<open>
  \<open>scripts[0]?.content[0].content\<close>: nothing without a script, a \<open>TypeError\<close> for a
  script without children, the text when the first child is a text node.
\<close>

definition legacyScript :: "node list \<Rightarrow> error + string option" where
  "legacyScript found =
     (case found of
        [] \<Rightarrow> Inr None
      | first # _ \<Rightarrow>
          (case children first of
             [] \<Rightarrow> Inl TypeError
           | TextNode r t # _ \<Rightarrow> Inr (Some t)
           | TagNode r tg as cs # _ \<Rightarrow> Inr None))"

definition legacyAccessor :: "(nat \<rightharpoonup> string) \<Rightarrow> node \<times> string \<times> string \<Rightarrow> string" where
  "legacyAccessor m = (\<lambda>(nd, attr, variable).
     ''    get '' @ variable @ ''() {\<newline>'' @ ''    },\<newline>''
     @ ''    set '' @ variable @ ''(value) {\<newline>''
     @ ''      '' @ getVariableName m nd @ ''.setAttribute(\"'' @ attr @ ''\", value);\<newline>''
     @ ''    },\<newline>'')"

definition legacyHandler :: "(nat \<rightharpoonup> string) \<Rightarrow> node \<times> string \<times> string \<Rightarrow> string" where
  "legacyHandler m = (\<lambda>(nd, event, variable).
     ''  '' @ getVariableName m nd @ ''.addEventListener('' @ JSON_stringify event @ '', ''
     @ variable @ '')'')"

definition legacyCompile :: "env \<Rightarrow> node list \<Rightarrow> error + string" where
  "legacyCompile env parsed =
     (let roots = legacyRemove parsed;
          nodes = l_nodes roots;
          m = walk [] nodes legacyNameStep Map.empty;
          s = fold (legacyEmit env m (l_templates roots)) (flat nodes)
                \<lparr>l_code = ''export function compile() {\<newline>'', l_exportNodes = [],
                 l_variableExport = [], l_eventHandlers = []\<rparr>
      in if l_exportNodes s = [] then Inr []
         else
           (case legacyScript (l_scripts roots) of
              Inl e \<Rightarrow> Inl e
            | Inr script \<Rightarrow>
                (let code =
                   (if script \<noteq> None \<and> script \<noteq> Some [] then
                      l_code s @ the script @ ''\<newline>'' @ ''\<newline>''
                    else
                      l_code s @ ''  return {\<newline>''
                      @ (case l_exportNodes s of
                           [only] \<Rightarrow> ''    el: '' @ getVariableName m only @ '',\<newline>''
                         | many \<Rightarrow> ''    el: ['' @ joinWith '', '' (map (getVariableName m) many)
                                    @ ''],\<newline>'')
                      @ concat (map (legacyAccessor m) (l_variableExport s))
                      @ ''  }'');
                     code = code @ concat (map (legacyHandler m) (l_eventHandlers s))
                 in Inr (code @ ''\<newline>}''))))"

section \<open>What the generator emits, statement by statement\<close>

text \<open>
  The definitions of this section are not translations of source functions: they name
  the parts of the output that the properties below speak about, and are related to
  the translated functions by the lemmas that follow.
\<close>

subsection \<open>Lines\<close>

text \<open>One line of the function body: two spaces, the statement, a line feed.\<close>

definition indentLine :: "string \<Rightarrow> string" where
  "indentLine l = ''  '' @ l @ ''\<newline>''"

text \<open>A statement that \<open>trim\<close> and the split at line feeds of \<open>indent\<close> leave as it is.\<close>

definition cleanLine :: "string \<Rightarrow> bool" where
  "cleanLine l =
     (l \<noteq> [] \<and> \<not> isWhiteSpace (hd l) \<and> \<not> isWhiteSpace (last l) \<and> CHR 0x0A \<notin> set l)"

fun joinLines :: "string list \<Rightarrow> string" where
  "joinLines [] = []"
| "joinLines [l] = l"
| "joinLines (l # m # ls) = l @ CHR 0x0A # joinLines (m # ls)"

subsection \<open>The statements of one node\<close>

text \<open>
  The creation statement: \<open>createTextNode\<close> for a text node, \<open>createElementNS\<close> with the
  SVG namespace for type \<open>svg\<close>, \<open>createElement\<close> for type \<open>element\<close>.
\<close>

definition creationStatement :: "declaredNode \<Rightarrow> string" where
  "creationStatement nd =
     (if d_type nd = TypeText then
        ''const '' @ nameof nd @ '' = document.createTextNode('' @ JSON_stringify (d_content nd)
          @ '');''
      else if d_type nd = TypeSvg then
        ''const '' @ nameof nd @ '' = document.createElementNS(\"http://www.w3.org/2000/svg\", \"''
          @ d_tag nd @ ''\");''
      else ''const '' @ nameof nd @ '' = document.createElement(\"'' @ d_tag nd @ ''\");'')"

text \<open>
  The statement of a plain attribute: \<open>width\<close> and \<open>height\<close> are assigned as
  properties, \<open>class\<close> as \<open>className\<close>, \<open>style\<close> as \<open>style.cssText\<close>, and every other
  attribute is set with \<open>setAttribute\<close>.
\<close>

definition attributeStatement :: "string \<Rightarrow> string \<Rightarrow> string \<Rightarrow> string" where
  "attributeStatement handle name v =
     (if name = ''width'' \<or> name = ''height'' then
        handle @ ''.'' @ name @ '' = '' @ JSON_stringify v @ '';''
      else if name = ''class'' then handle @ ''.className = '' @ JSON_stringify v @ '';''
      else if name = ''style'' then handle @ ''.style.cssText = '' @ JSON_stringify v @ '';''
      else handle @ ''.setAttribute('' @ JSON_stringify name @ '', '' @ JSON_stringify v @ '');'')"

text \<open>The tree-assembly statement.\<close>

definition appendStatement :: "string \<Rightarrow> string \<Rightarrow> string" where
  "appendStatement parentHandle handle = parentHandle @ ''.appendChild('' @ handle @ '');''"

definition attributeStatements :: "declaredNode \<Rightarrow> string list" where
  "attributeStatements nd =
     (if d_type nd = TypeText then []
      else map (\<lambda>a. attributeStatement (nameof nd) (ga_name a) (ga_value a))
             (filter isGenericAttribute (d_attributes nd)))"

text \<open>
  The statements of a node, in order: its creation, its plain attributes, and the
  append to its parent when it has one.
\<close>

definition statements :: "declaredNode \<Rightarrow> string list" where
  "statements nd =
     creationStatement nd # attributeStatements nd
       @ (case d_parent nd of
            Some parent \<Rightarrow> [appendStatement (nameof parent) (nameof nd)]
          | None \<Rightarrow> [])"

text \<open>
  A handle that can start a line, and a declared node whose statements are lines: no
  line feed in its handle, in its tag or in its parent's handle.
\<close>

definition cleanName :: "string \<Rightarrow> bool" where
  "cleanName s = (s \<noteq> [] \<and> \<not> isWhiteSpace (hd s) \<and> CHR 0x0A \<notin> set s)"

definition cleanDeclared :: "declaredNode \<Rightarrow> bool" where
  "cleanDeclared nd =
     (cleanName (nameof nd) \<and> (d_type nd \<noteq> TypeText \<longrightarrow> CHR 0x0A \<notin> set (d_tag nd))
      \<and> (case d_parent nd of Some parent \<Rightarrow> cleanName (nameof parent) | None \<Rightarrow> True))"

subsection \<open>The parts of the output\<close>

text \<open>The order in which \<open>walkDeclared\<close> visits declared nodes.\<close>

fun preorder :: "declaredNode list \<Rightarrow> declaredNode list" where
  "preorder [] = []"
| "preorder (TextElementNode n p c # nodes) = TextElementNode n p c # preorder nodes"
| "preorder (ElementNode n p ty tg rt ev va at ch # nodes) =
     ElementNode n p ty tg rt ev va at ch # (if ty \<noteq> TypeText then preorder ch else [])
       @ preorder nodes"

text \<open>What the first walk appends for one node, and the events it collects there.\<close>

definition nodeCode :: "declaredNode \<Rightarrow> string" where
  "nodeCode nd = indent (trim (compileHtml nd)) @ ''\<newline>''"

definition nodeEvents :: "declaredNode \<Rightarrow> bindEvent list" where
  "nodeEvents nd = (if d_type nd \<noteq> TypeText then map (Pair nd) (d_events nd) else [])"

text \<open>What the walk over the scripts appends for one node.\<close>

definition scriptText :: "declaredNode \<Rightarrow> string" where
  "scriptText nd =
     (if d_type nd = TypeText then trim (d_content nd) @ ''\<newline>\<newline>'' else [])"

text \<open>The event-listener registration of one collected event.\<close>

definition listenerStatement :: "bindEvent \<Rightarrow> string" where
  "listenerStatement b =
     ''  '' @ nameof (fst b) @ ''.addEventListener('' @ JSON_stringify (eventName (snd b))
       @ '', '' @ variableName (snd b) @ '')\<newline>''"

subsection \<open>Parsed trees\<close>

text \<open>The nodes of a parsed tree in document order, and their \<open>refId\<close>s.\<close>

fun preorderNodes :: "node list \<Rightarrow> node list" where
  "preorderNodes [] = []"
| "preorderNodes (TextNode r t # nodes) = TextNode r t # preorderNodes nodes"
| "preorderNodes (TagNode r tg as cs # nodes) =
     TagNode r tg as cs # preorderNodes cs @ preorderNodes nodes"

definition refIds :: "node list \<Rightarrow> nat list" where
  "refIds nodes = map refId (preorderNodes nodes)"

text \<open>
  The declared tree of a parsed node, built without the map: the node declared with the
  chain of its enclosing nodes and its declared parent, its children declared under it.
\<close>

fun setChildren :: "declaredNode \<Rightarrow> declaredNode list \<Rightarrow> declaredNode" where
  "setChildren (TextElementNode n p c) kids = TextElementNode n p c"
| "setChildren (ElementNode n p ty tg rt ev va at ch) kids =
     ElementNode n p ty tg rt ev va at kids"

fun declareTree :: "env \<Rightarrow> node list \<Rightarrow> declaredNode option \<Rightarrow> node \<Rightarrow> declaredNode" where
  "declareTree env anc parent (TextNode r t) = visit env anc (TextNode r t) parent"
| "declareTree env anc parent (TagNode r tg as cs) =
     setChildren (visit env anc (TagNode r tg as cs) parent)
       (map (declareTree env (TagNode r tg as cs # anc)
               (Some (visit env anc (TagNode r tg as cs) parent))) cs)"

text \<open>The name a \<open>#ref\<close> attribute with value \<open>v\<close> gives.\<close>

definition refName :: "string \<Rightarrow> string" where
  "refName v = (if trim v = [] then ''el'' else trim v)"

subsection \<open>An environment for concrete inputs\<close>

text \<open>
  Modelled from the spec: \<open>trimAny\<close> of \<open>./utils\<close> is missing from the sources. The spec
  has the classifier "strip matching \<open>{\<close>/\<open>}\<close> and surrounding whitespace"; the
  classifier trims the white space itself, so \<open>trimAny\<close> strips the listed characters
  from both ends. \<open>decode\<close> leaves a text without entities as it is. The environment is
  used to evaluate the compiler on concrete inputs only.
\<close>

definition stripChars :: "string list \<Rightarrow> string \<Rightarrow> string" where
  "stripChars cs s =
     rev (dropWhile (\<lambda>c. [c] \<in> set cs) (rev (dropWhile (\<lambda>c. [c] \<in> set cs) s)))"

definition plainEnv :: env where
  "plainEnv = \<lparr>decode = (\<lambda>s. s), trimAny = (\<lambda>s cs. stripChars cs s)\<rparr>"

subsection \<open>Shapes of inputs and of declared trees\<close>

text \<open>
  A declared tree whose children all point back at their parent, the parent being held
  as \<open>visit\<close> made it, before any child was pushed.
\<close>

fun linked :: "declaredNode \<Rightarrow> bool" where
  "linked (TextElementNode n p c) = True"
| "linked (ElementNode n p ty tg rt ev va at ch) =
     (\<forall>c\<in>set ch. d_parent c = Some (ElementNode n p ty tg rt ev va at []) \<and> linked c)"

text \<open>
  What the parser guarantees of a tag node and the statements need: no line feed in a tag
  name or in the value of \<open>#ref\<close>, so that a creation statement is one line.
\<close>

fun cleanNode :: "node \<Rightarrow> bool" where
  "cleanNode (TextNode r t) = True"
| "cleanNode (TagNode r tg as cs) =
     (CHR 0x0A \<notin> set tg
      \<and> (\<forall>a\<in>set as. attr_name a = ''#ref'' \<longrightarrow> CHR 0x0A \<notin> set (attr_value a))
      \<and> (\<forall>c\<in>set cs. cleanNode c))"

text \<open>The declared nodes that \<open>prepareStep\<close> keeps out of the root nodes.\<close>

definition segregated :: "declaredNode \<Rightarrow> bool" where
  "segregated nd =
     (d_type nd = TypeElement \<and> d_tag nd \<in> set [''template'', ''script'', ''style''])"

text \<open>
  The handle of a parsed node, read off the node: the name that its first \<open>#ref\<close>
  attribute gives, or \<open>el\<close> followed by the \<open>refId\<close>.
\<close>

fun handleOf :: "node \<Rightarrow> string" where
  "handleOf (TextNode r t) = ''el'' @ decimal r"
| "handleOf (TagNode r tg as cs) =
     (case find (\<lambda>a. attr_name a = ''#ref'') as of
        None \<Rightarrow> ''el'' @ decimal r
      | Some a \<Rightarrow> refName (attr_value a))"

text \<open>The handle of the parent, when there is one, is one clean token.\<close>

definition cleanParent :: "declaredNode option \<Rightarrow> bool" where
  "cleanParent par = (case par of Some parent \<Rightarrow> cleanName (nameof parent) | None \<Rightarrow> True)"

text \<open>A statement that declares the handle \<open>handle\<close> with a DOM creation call.\<close>

definition declares :: "string \<Rightarrow> string \<Rightarrow> bool" where
  "declares handle stmt = startsWith stmt (''const '' @ handle @ '' = document.create'')"

subsection \<open>The documented rules, read off the parsed tree\<close>

text \<open>
  The following definitions are written from the documented behaviour, on parsed nodes
  only, and are compared below with what \<open>reduce\<close> and \<open>compile\<close> compute. First:
  every node of a tree with its ancestors, nearest first, in document order.
\<close>

fun withAncestors :: "node list \<Rightarrow> node list \<Rightarrow> (node list \<times> node) list" where
  "withAncestors anc [] = []"
| "withAncestors anc (TextNode r t # nodes) = (anc, TextNode r t) # withAncestors anc nodes"
| "withAncestors anc (TagNode r tg as cs # nodes) =
     (anc, TagNode r tg as cs) # withAncestors (TagNode r tg as cs # anc) cs
       @ withAncestors anc nodes"

text \<open>
  The documented typing rule: text for a text node; for a tag node, \<open>svg\<close> when the node
  or one of its ancestors has the tag \<open>svg\<close>, and \<open>element\<close> otherwise.
\<close>

definition typeBySvg :: "node list \<Rightarrow> node \<Rightarrow> nodeType" where
  "typeBySvg anc nd =
     (if isTextNode nd then TypeText
      else if tag nd = ''svg'' \<or> (\<exists>a\<in>set anc. isTagNode a \<and> tag a = ''svg'') then TypeSvg
      else TypeElement)"

text \<open>
  The documented plain attributes: neither a compound assignment, nor \<open>#ref\<close>, nor a
  variable shorthand, nor an attribute whose value is an expression in braces.
\<close>

definition isPlainAttribute :: "nodeAttribute \<Rightarrow> bool" where
  "isPlainAttribute a =
     (\<not> startsWith (attr_name a) ''='' \<and> attr_name a \<noteq> ''#ref''
      \<and> \<not> startsWith (attr_name a) ''{'' \<and> \<not> startsWith (attr_value a) ''{'')"

text \<open>The documented root elements that are kept out of the output tree, and the scripts.\<close>

definition segregatedRoot :: "node \<Rightarrow> bool" where
  "segregatedRoot nd = (isTagNode nd \<and> tag nd \<in> set [''template'', ''script'', ''style''])"

definition scriptRoot :: "node \<Rightarrow> bool" where
  "scriptRoot nd = (isTagNode nd \<and> tag nd = ''script'')"

subsection \<open>Event modifiers\<close>

text \<open>
  The characters that separate an event name from its modifiers, the attribute and the
  tree with the modifiers of every event directive removed.
\<close>

definition isSeparator :: "char \<Rightarrow> bool" where
  "isSeparator c = (c = CHR ''|'' \<or> c = CHR ''.'')"

fun dropModifiers :: "nodeAttribute \<Rightarrow> nodeAttribute" where
  "dropModifiers (NodeAttribute name v) =
     (if startsWith name ''on:'' \<and> startsWith v ''{''
      then NodeAttribute (''on:'' @ takeWhile (\<lambda>c. \<not> isSeparator c) (drop 3 name)) v
      else NodeAttribute name v)"

fun withoutModifiers :: "node \<Rightarrow> node" where
  "withoutModifiers (TextNode r t) = TextNode r t"
| "withoutModifiers (TagNode r tg as cs) =
     TagNode r tg (map dropModifiers as) (map withoutModifiers cs)"

text \<open>
  The declared tree with everything the emitter never reads removed: the modifiers of the
  events and the parsed node, of which only the \<open>refId\<close> is used.
\<close>

fun eraseAttribute :: "declaredAttribute \<Rightarrow> declaredAttribute" where
  "eraseAttribute (EventAttribute e ms v) = EventAttribute e [] v"
| "eraseAttribute a = a"

fun erase :: "declaredNode \<Rightarrow> declaredNode" where
  "erase (TextElementNode n p c) = TextElementNode (TextNode (refId n) []) (map_option erase p) c"
| "erase (ElementNode n p ty tg rt ev va at ch) =
     ElementNode (TextNode (refId n) []) (map_option erase p) ty tg rt (map eraseAttribute ev) va at
       (map erase ch)"

section \<open>Lemmas\<close>

lemma trimStart_id: "s \<noteq> [] \<Longrightarrow> \<not> isWhiteSpace (hd s) \<Longrightarrow> trimStart s = s"
  by (cases s) (simp_all add: trimStart_def)

lemma trimEnd_id: "s \<noteq> [] \<Longrightarrow> \<not> isWhiteSpace (last s) \<Longrightarrow> trimEnd s = s"
  by (cases "rev s") (simp_all add: trimEnd_def last_rev [symmetric] del: last_rev)

lemma trimEnd_append_ws:
  "\<forall>c\<in>set w. isWhiteSpace c \<Longrightarrow> trimEnd (s @ w) = trimEnd s"
  by (simp add: trimEnd_def dropWhile_append)

lemma trimStart_append:
  "s \<noteq> [] \<Longrightarrow> \<not> isWhiteSpace (hd s) \<Longrightarrow> trimStart (s @ t) = s @ t"
  by (cases s) (simp_all add: trimStart_def)

lemma trim_id: "s \<noteq> [] \<Longrightarrow> \<not> isWhiteSpace (hd s) \<Longrightarrow> \<not> isWhiteSpace (last s) \<Longrightarrow> trim s = s"
  by (simp add: trim_def trimStart_id trimEnd_id)

lemma trim_append_ws:
  "s \<noteq> [] \<Longrightarrow> \<not> isWhiteSpace (hd s) \<Longrightarrow> \<not> isWhiteSpace (last s) \<Longrightarrow>
   \<forall>c\<in>set w. isWhiteSpace c \<Longrightarrow> trim (s @ w) = s"
  by (simp add: trim_def trimStart_append trimEnd_append_ws trimEnd_id)

lemma hd_dropWhile_rev:
  "rev (dropWhile P (rev s)) \<noteq> [] \<Longrightarrow> hd (rev (dropWhile P (rev s))) = hd s"
proof (induction s rule: rev_induct)
  case Nil
  then show ?case by simp
next
  case (snoc x xs)
  then show ?case by (cases xs) (auto split: if_splits)
qed

lemma trim_hd: "trim s \<noteq> [] \<Longrightarrow> \<not> isWhiteSpace (hd (trim s))"
proof -
  assume a: "trim s \<noteq> []"
  then have n: "dropWhile isWhiteSpace s \<noteq> []"
    by (auto simp: trim_def trimEnd_def trimStart_def simp del: dropWhile_eq_Nil_conv)
  have "hd (trim s) = hd (dropWhile isWhiteSpace s)"
    using a hd_dropWhile_rev [of isWhiteSpace "dropWhile isWhiteSpace s"]
    by (simp add: trim_def trimEnd_def trimStart_def)
  then show ?thesis using n hd_dropWhile [of isWhiteSpace s] by simp
qed

lemma set_trim: "set (trim s) \<subseteq> set s"
  by (auto simp: trim_def trimEnd_def trimStart_def dest!: set_dropWhileD)

lemma splitBy_none: "\<forall>c\<in>set s. \<not> p c \<Longrightarrow> splitBy p s = [s]"
  by (induction s) auto

lemma splitBy_append:
  "\<forall>c\<in>set a. \<not> p c \<Longrightarrow> p x \<Longrightarrow> splitBy p (a @ x # rest) = a # splitBy p rest"
  by (induction a) auto

lemma concat_lines_join:
  "ls \<noteq> [] \<Longrightarrow> concat (map (\<lambda>l. l @ ''\<newline>'') ls) = joinLines ls @ ''\<newline>''"
  by (induction ls rule: joinLines.induct) simp_all

lemma joinLines_nonempty: "ls \<noteq> [] \<Longrightarrow> hd ls \<noteq> [] \<Longrightarrow> joinLines ls \<noteq> []"
  by (induction ls rule: joinLines.induct) simp_all

lemma hd_joinLines: "ls \<noteq> [] \<Longrightarrow> hd ls \<noteq> [] \<Longrightarrow> hd (joinLines ls) = hd (hd ls)"
  by (induction ls rule: joinLines.induct) simp_all

lemma last_joinLines:
  "ls \<noteq> [] \<Longrightarrow> \<forall>l\<in>set ls. l \<noteq> [] \<Longrightarrow> last (joinLines ls) = last (last ls)"
  by (induction ls rule: joinLines.induct) (simp_all add: joinLines_nonempty)

lemma splitBy_joinLines:
  "ls \<noteq> [] \<Longrightarrow> \<forall>l\<in>set ls. CHR 0x0A \<notin> set l \<Longrightarrow>
   splitBy (\<lambda>c. c = CHR 0x0A) (joinLines ls) = ls"
proof (induction ls rule: joinLines.induct)
  case 1
  then show ?case by simp
next
  case (2 l)
  then show ?case by (auto intro!: splitBy_none)
next
  case (3 l m ls)
  have "splitBy (\<lambda>c. c = CHR 0x0A) (l @ CHR 0x0A # joinLines (m # ls))
        = l # splitBy (\<lambda>c. c = CHR 0x0A) (joinLines (m # ls))"
    using "3.prems" by (intro splitBy_append) auto
  then show ?case using "3.IH" "3.prems" by simp
qed

lemma indentStep_clean: "cleanLine l \<Longrightarrow> indentStep l code = code @ indentLine l"
  by (simp add: indentStep_def cleanLine_def trim_id indentLine_def)

lemma fold_indentStep:
  "\<forall>l\<in>set ls. cleanLine l \<Longrightarrow> fold indentStep ls code = code @ concat (map indentLine ls)"
  by (induction ls arbitrary: code) (simp_all add: indentStep_clean)

lemma isWhiteSpace_newline: "isWhiteSpace CHR 0x0A"
  by (simp add: isWhiteSpace_def)

lemma indent_lines:
  assumes "ls \<noteq> []" and "\<forall>l\<in>set ls. cleanLine l"
  shows "indent (trim (concat (map (\<lambda>l. l @ ''\<newline>'') ls) @ ''\<newline>'')) = concat (map indentLine ls)"
proof -
  have ne: "\<forall>l\<in>set ls. l \<noteq> []" and nl: "\<forall>l\<in>set ls. CHR 0x0A \<notin> set l"
    using assms(2) by (auto simp: cleanLine_def)
  have h: "hd ls \<in> set ls" and l: "last ls \<in> set ls" using assms(1) by simp_all
  have j: "joinLines ls \<noteq> []" using assms(1) ne h by (simp add: joinLines_nonempty)
  have jh: "\<not> isWhiteSpace (hd (joinLines ls))"
    using assms h ne by (simp add: hd_joinLines cleanLine_def)
  have jl: "\<not> isWhiteSpace (last (joinLines ls))"
    using assms l ne by (simp add: last_joinLines cleanLine_def)
  have "concat (map (\<lambda>l. l @ ''\<newline>'') ls) @ ''\<newline>'' = joinLines ls @ ''\<newline>\<newline>''"
    using assms(1) by (simp add: concat_lines_join)
  moreover have "trim (joinLines ls @ ''\<newline>\<newline>'') = joinLines ls"
    using j jh jl by (intro trim_append_ws) (simp_all add: isWhiteSpace_newline)
  ultimately show ?thesis
    using assms nl by (simp add: indent_def splitBy_joinLines fold_indentStep)
qed

lemma fold_attributeCode:
  "fold (attributeCode nd) as code =
     code @ concat (map (\<lambda>a. attributeStatement (nameof nd) (ga_name a) (ga_value a) @ ''\<newline>'')
                      (filter isGenericAttribute as))"
proof (induction as arbitrary: code)
  case Nil
  then show ?case by simp
next
  case (Cons a as)
  then show ?case by (cases a) (simp_all add: attributeStatement_def)
qed

lemma compileHtml_statements:
  "compileHtml nd = concat (map (\<lambda>l. l @ ''\<newline>'') (statements nd)) @ ''\<newline>''"
  by (simp add: compileHtml_def statements_def creationStatement_def attributeStatements_def
        appendStatement_def fold_attributeCode map_concat comp_def split: option.split)

lemma hexDigit_in: "n < 16 \<Longrightarrow> hexDigit n \<in> set ''0123456789abcdef''"
  unfolding hexDigit_def by (rule nth_mem) simp

lemma newline_quoteJSONChar: "CHR 0x0A \<notin> set (quoteJSONChar c)"
proof -
  have a: "hexDigit (of_char c div 16) \<noteq> CHR 0x0A" if "(of_char c :: nat) < 32"
  proof -
    have "(of_char c :: nat) div 16 < 16" using that by simp
    then show ?thesis using hexDigit_in [of "of_char c div 16"] by auto
  qed
  have b: "hexDigit (of_char c mod 16) \<noteq> CHR 0x0A"
  proof -
    have "(of_char c :: nat) mod 16 < 16" by simp
    then show ?thesis using hexDigit_in [of "of_char c mod 16"] by auto
  qed
  show ?thesis using a b by (auto simp: quoteJSONChar_def)
qed

lemma newline_JSON_stringify: "CHR 0x0A \<notin> set (JSON_stringify s)"
  by (auto simp: JSON_stringify_def newline_quoteJSONChar)

lemma decimal_digits: "set (decimal n) \<subseteq> set ''0123456789''"
proof (induction n rule: decimal.induct)
  case (1 n)
  have m: "''0123456789'' ! (n mod 10) \<in> set ''0123456789''" by (rule nth_mem) simp
  show ?case
  proof (cases "n < 10")
    case True
    then have "''0123456789'' ! n \<in> set ''0123456789''" by (intro nth_mem) simp
    then show ?thesis using True by (subst decimal.simps) simp
  next
    case False
    then show ?thesis using 1 m by (subst decimal.simps) simp
  qed
qed

lemma newline_decimal: "CHR 0x0A \<notin> set (decimal n)"
  using decimal_digits [of n] by auto

lemma cleanLine_creation:
  "CHR 0x0A \<notin> set (nameof nd) \<Longrightarrow> (d_type nd \<noteq> TypeText \<longrightarrow> CHR 0x0A \<notin> set (d_tag nd)) \<Longrightarrow>
   cleanLine (creationStatement nd)"
  by (simp add: cleanLine_def creationStatement_def isWhiteSpace_def newline_JSON_stringify)

lemma cleanLine_attribute:
  "cleanName h \<Longrightarrow> cleanLine (attributeStatement h name v)"
  by (auto simp: cleanLine_def cleanName_def attributeStatement_def isWhiteSpace_def newline_JSON_stringify)

lemma cleanLine_append:
  "cleanName h \<Longrightarrow> CHR 0x0A \<notin> set k \<Longrightarrow> cleanLine (appendStatement h k)"
  by (auto simp: cleanLine_def cleanName_def appendStatement_def isWhiteSpace_def)

lemma cleanLine_statements:
  "cleanDeclared nd \<Longrightarrow> \<forall>l\<in>set (statements nd). cleanLine l"
  by (auto simp: statements_def attributeStatements_def cleanDeclared_def cleanLine_creation
        cleanLine_attribute cleanLine_append cleanName_def split: option.splits)

lemma indent_compileHtml:
  "cleanDeclared nd \<Longrightarrow>
   indent (trim (compileHtml nd)) = concat (map indentLine (statements nd))"
  unfolding compileHtml_statements
  by (rule indent_lines) (simp_all add: statements_def cleanLine_statements [unfolded statements_def])

lemma walkDeclared_fold: "walkDeclared nodes visitor s = fold visitor (preorder nodes) s"
  by (induction nodes visitor s rule: walkDeclared.induct) (simp_all add: Let_def)

lemma fold_push: "fold (\<lambda>event events. events @ [(nd, event)]) es acc = acc @ map (Pair nd) es"
  by (induction es arbitrary: acc) simp_all

lemma fold_emitNode:
  "fold emitNode ns (code, evs) =
     (code @ concat (map nodeCode ns), evs @ concat (map nodeEvents ns))"
  by (induction ns arbitrary: code evs)
     (simp_all add: emitNode_def nodeCode_def nodeEvents_def fold_push)

lemma fold_spliceScript:
  "fold spliceScript ns code = code @ concat (map scriptText ns)"
  by (induction ns arbitrary: code) (simp_all add: spliceScript_def scriptText_def)

lemma fold_bindCode:
  "fold bindCode bs code = code @ concat (map listenerStatement bs)"
  by (induction bs arbitrary: code) (simp_all add: bindCode_def listenerStatement_def split: prod.split)

lemma compile_parts:
  "compile env nodes =
     ''export function compile() {\<newline>''
     @ concat (map nodeCode (preorder (rootNodes (prepareNodes (reduce env nodes)))))
     @ concat (map scriptText (preorder (scripts (prepareNodes (reduce env nodes)))))
     @ concat (map listenerStatement
         (concat (map nodeEvents (preorder (rootNodes (prepareNodes (reduce env nodes)))))))
     @ ''}\<newline>''"
  by (simp add: compile_def Let_def walkDeclared_fold fold_emitNode fold_spliceScript fold_bindCode)

lemma preorderNodes_Cons: "preorderNodes (nd # nodes) = preorderNodes [nd] @ preorderNodes nodes"
  by (cases nd) simp_all

lemma refIds_Cons: "refIds (nd # nodes) = refIds [nd] @ refIds nodes"
  using preorderNodes_Cons [of nd nodes] by (simp add: refIds_def)

lemma refIds_Tag: "refIds [TagNode r tg as cs] = r # refIds cs"
  by (simp add: refIds_def)

lemma refIds_Text: "refIds [TextNode r t] = [r]"
  by (simp add: refIds_def)

lemma d_parent_declareTree [simp]: "d_parent (declareTree env anc parent nd) = parent"
  by (cases nd) (simp_all add: visit_def Let_def)

lemma d_type_visit_Tag: "d_type (visit env anc (TagNode r tg as cs) parent) \<noteq> TypeText"
  by (simp add: visit_def Let_def)

lemma pushed_declareTree:
  "pushed (declareTree env anc (Some parent) nd) = (d_type parent \<noteq> TypeText)"
  by (simp add: pushed_def)

lemma pushChildren_visit:
  "pushChildren (visit env anc (TagNode r tg as cs) parent) kids =
   setChildren (visit env anc (TagNode r tg as cs) parent) (filter pushed kids)"
  by (simp add: visit_def Let_def)

lemma reduce_declareTree_aux:
  "distinct (refIds nodes) \<Longrightarrow> (anc \<noteq> [] \<Longrightarrow> refId (hd anc) \<notin> set (refIds nodes)) \<Longrightarrow>
     fst (reduceWalk env anc m nodes) = map (declareTree env anc (getParent m anc)) nodes
     \<and> (\<forall>k. k \<notin> set (refIds nodes) \<longrightarrow> snd (reduceWalk env anc m nodes) k = m k)"
  "distinct (refIds [nd]) \<Longrightarrow> (anc \<noteq> [] \<Longrightarrow> refId (hd anc) \<notin> set (refIds [nd])) \<Longrightarrow>
     fst (reduceNode env anc m nd) = declareTree env anc (getParent m anc) nd
     \<and> (\<forall>k. k \<notin> set (refIds [nd]) \<longrightarrow> snd (reduceNode env anc m nd) k = m k)"
proof (induction env anc m nodes and env anc m nd rule: reduceWalk_reduceNode.induct)
  case (1 env anc nodeTo)
  then show ?case by simp
next
  case (2 env anc nodeTo nd nodes)
  obtain reduced nodeTo1 where r: "reduceNode env anc nodeTo nd = (reduced, nodeTo1)"
    by (cases "reduceNode env anc nodeTo nd")
  have d: "distinct (refIds [nd])" "distinct (refIds nodes)"
    and dj: "set (refIds [nd]) \<inter> set (refIds nodes) = {}"
    using "2.prems"(1) by (simp_all add: refIds_Cons [of nd nodes])
  have a1: "anc \<noteq> [] \<Longrightarrow> refId (hd anc) \<notin> set (refIds [nd])"
    and a2: "anc \<noteq> [] \<Longrightarrow> refId (hd anc) \<notin> set (refIds nodes)"
    using "2.prems"(2) by (simp_all add: refIds_Cons [of nd nodes])
  have n1: "reduced = declareTree env anc (getParent nodeTo anc) nd"
    and k1: "\<forall>k. k \<notin> set (refIds [nd]) \<longrightarrow> nodeTo1 k = nodeTo k"
    using "2.IH"(1) [OF d(1) a1] r by simp_all
  have gp: "getParent nodeTo1 anc = getParent nodeTo anc"
    using a1 k1 by (cases anc) simp_all
  have n2: "fst (reduceWalk env anc nodeTo1 nodes) = map (declareTree env anc (getParent nodeTo anc)) nodes"
    and k2: "\<forall>k. k \<notin> set (refIds nodes) \<longrightarrow> snd (reduceWalk env anc nodeTo1 nodes) k = nodeTo1 k"
    using "2.IH"(2) [OF r [symmetric] refl d(2) a2] gp by simp_all
  obtain rest nodeTo2 where w: "reduceWalk env anc nodeTo1 nodes = (rest, nodeTo2)"
    by (cases "reduceWalk env anc nodeTo1 nodes")
  show ?case
    using r w n1 n2 k1 k2 by (simp add: refIds_Cons [of nd nodes])
next
  case (3 env anc nodeTo r t)
  then show ?case by (simp add: refIds_Text Let_def)
next
  case (4 env anc nodeTo r tg as cs)
  let ?N = "TagNode r tg as cs"
  let ?red = "visit env anc ?N (getParent nodeTo anc)"
  have d: "distinct (refIds cs)" and nr: "r \<notin> set (refIds cs)"
    using "4.prems"(1) by (simp_all add: refIds_Tag)
  have a: "?N # anc \<noteq> [] \<Longrightarrow> refId (hd (?N # anc)) \<notin> set (refIds cs)"
    using nr by simp
  have gp: "getParent (nodeTo(r \<mapsto> ?red)) (?N # anc) = Some ?red" by simp
  have ih: "fst (reduceWalk env (?N # anc) (nodeTo(r \<mapsto> ?red)) cs)
              = map (declareTree env (?N # anc) (Some ?red)) cs"
    and k: "\<forall>k. k \<notin> set (refIds cs) \<longrightarrow> snd (reduceWalk env (?N # anc) (nodeTo(r \<mapsto> ?red)) cs) k = (nodeTo(r \<mapsto> ?red)) k"
    using "4.IH" [OF refl d a] unfolding gp by blast+
  have f: "filter pushed (map (declareTree env (?N # anc) (Some ?red)) cs)
             = map (declareTree env (?N # anc) (Some ?red)) cs"
    by (simp add: pushed_declareTree d_type_visit_Tag)
  obtain kids nodeTo1 where w: "reduceWalk env (?N # anc) (nodeTo(r \<mapsto> ?red)) cs = (kids, nodeTo1)"
    by (cases "reduceWalk env (?N # anc) (nodeTo(r \<mapsto> ?red)) cs")
  show ?case
    using w ih k f by (simp add: refIds_Tag pushChildren_visit Let_def)
qed

lemma reduce_declareTree:
  "distinct (refIds nodes) \<Longrightarrow> reduce env nodes = map (declareTree env [] None) nodes"
  using reduce_declareTree_aux(1) [of nodes "[]" env Map.empty] by (simp add: reduce_def)

lemma startsWith_on:
  assumes "startsWith name ''on:''"
  shows "\<not> startsWith name ''=''" "name \<noteq> ''#ref''" "\<not> startsWith name ''{''"
proof -
  obtain rest where "name = ''on:'' @ rest"
    using assms unfolding startsWith_def by (metis append_take_drop_id)
  then show "\<not> startsWith name ''=''" "name \<noteq> ''#ref''" "\<not> startsWith name ''{''"
    by (simp_all add: startsWith_def)
qed

lemma compileAttribute_ref: "compileAttribute env (NodeAttribute ''#ref'' v) = Some (RefAttribute (refName v))"
  by (simp add: compileAttribute_def startsWith_def refName_def)

lemma compileAttribute_not_ref:
  "attr_name a \<noteq> ''#ref'' \<Longrightarrow> compileAttribute env a = Some x \<Longrightarrow> \<not> isRefAttribute x"
  by (auto simp: compileAttribute_def Let_def split: if_splits)

lemma find_ref:
  "find isRefAttribute (List.map_filter (compileAttribute env) as)
     = map_option (\<lambda>a. RefAttribute (refName (attr_value a))) (find (\<lambda>a. attr_name a = ''#ref'') as)"
proof (induction as)
  case Nil
  then show ?case by (simp add: List.map_filter_simps)
next
  case (Cons a as)
  show ?case
  proof (cases "attr_name a = ''#ref''")
    case True
    then have "compileAttribute env a = Some (RefAttribute (refName (attr_value a)))"
      using compileAttribute_ref [of env "attr_value a"] by (cases a) simp
    then show ?thesis using True by (simp add: List.map_filter_simps)
  next
    case False
    then show ?thesis
      using Cons compileAttribute_not_ref [OF False, of env]
      by (cases "compileAttribute env a") (simp_all add: List.map_filter_simps)
  qed
qed

lemma refName_nonempty: "refName v \<noteq> []"
  by (simp add: refName_def)

lemma nameof_compileNode_Tag:
  "nameof (compileNode env anc (TagNode r tg as cs)) =
     (case find (\<lambda>a. attr_name a = ''#ref'') as of
        None \<Rightarrow> ''el'' @ decimal r
      | Some a \<Rightarrow> refName (attr_value a))"
  by (simp add: nameof_def Let_def find_ref refName_nonempty split: option.split)

lemma preorder_Cons: "preorder (nd # nodes) = preorder [nd] @ preorder nodes"
  by (cases nd) simp_all

lemma preorder_append: "preorder (xs @ ys) = preorder xs @ preorder ys"
proof (induction xs)
  case Nil
  then show ?case by simp
next
  case (Cons a xs)
  then show ?case using preorder_Cons [of a "xs @ ys"] preorder_Cons [of a xs] by simp
qed

lemma preorder_concat: "preorder nodes = concat (map (\<lambda>nd. preorder [nd]) nodes)"
proof (induction nodes)
  case Nil
  then show ?case by simp
next
  case (Cons a nodes)
  then show ?case using preorder_Cons [of a nodes] by simp
qed

lemma parent_before_child:
  "\<forall>d\<in>set F. linked d \<Longrightarrow> preorder F = xs @ c # ys \<Longrightarrow>
   c \<in> set F \<or> (\<exists>q\<in>set xs. c \<in> set (d_children q) \<and> d_type q \<noteq> TypeText
                    \<and> d_parent c = Some (setChildren q []))"
proof (induction F arbitrary: xs c ys rule: preorder.induct)
  case 1
  then show ?case by simp
next
  case (2 n p t nodes)
  show ?case
  proof (cases xs)
    case Nil
    then show ?thesis using "2.prems"(2) by simp
  next
    case (Cons x xs')
    then have "preorder nodes = xs' @ c # ys" using "2.prems"(2) by simp
    then show ?thesis using "2.IH" [of xs' c ys] "2.prems"(1) Cons by auto
  qed
next
  case (3 n p ty tg rt ev va at ch nodes)
  let ?E = "ElementNode n p ty tg rt ev va at ch"
  let ?A = "if ty \<noteq> TypeText then preorder ch else []"
  show ?case
  proof (cases xs)
    case Nil
    then show ?thesis using "3.prems"(2) by simp
  next
    case (Cons x xs')
    then have x: "x = ?E" and e: "?A @ preorder nodes = xs' @ c # ys"
      using "3.prems"(2) by simp_all
    from e obtain us where
      d: "(?A = xs' @ us \<and> us @ preorder nodes = c # ys) \<or> (?A @ us = xs' \<and> preorder nodes = us @ c # ys)"
      unfolding append_eq_append_conv2 by blast
    have "(\<exists>us. ?A = xs' @ us \<and> us @ preorder nodes = c # ys \<and> us \<noteq> [])
          \<or> (\<exists>us. xs' = ?A @ us \<and> preorder nodes = us @ c # ys)"
    proof (cases "us = []")
      case True
      then have "xs' = ?A @ [] \<and> preorder nodes = [] @ c # ys" using d by auto
      then show ?thesis by blast
    next
      case False
      then show ?thesis using d by blast
    qed
    then consider
        (left) us where "?A = xs' @ us" "us @ preorder nodes = c # ys" "us \<noteq> []"
      | (right) us where "xs' = ?A @ us" "preorder nodes = us @ c # ys"
      by blast
    then show ?thesis
    proof cases
      case left
      then obtain us' where us: "us = c # us'" by (cases us) auto
      then have a: "?A = xs' @ c # us'" using left by simp
      then have ty: "ty \<noteq> TypeText" by (auto split: if_splits)
      then have pc: "preorder ch = xs' @ c # us'" using a by simp
      have lk: "\<forall>d\<in>set ch. linked d" using "3.prems"(1) by simp
      from "3.IH"(1) [OF ty lk pc] show ?thesis
      proof
        assume "c \<in> set ch"
        moreover have "d_parent c = Some (setChildren ?E [])"
          using \<open>c \<in> set ch\<close> "3.prems"(1) by simp
        ultimately show ?thesis using Cons x ty by auto
      next
        assume "\<exists>q\<in>set xs'. c \<in> set (d_children q) \<and> d_type q \<noteq> TypeText
                  \<and> d_parent c = Some (setChildren q [])"
        then show ?thesis using Cons by auto
      qed
    next
      case right
      have lk: "\<forall>d\<in>set nodes. linked d" using "3.prems"(1) by simp
      from "3.IH"(2) [OF lk right(2)] show ?thesis using right(1) Cons by auto
    qed
  qed
qed

lemma visit_Tag:
  "\<exists>ty rt ev va at. visit env anc (TagNode r tg as cs) par
       = ElementNode (TagNode r tg as cs) par ty tg rt ev va at []
     \<and> ty = (if shouldRenderAsSvg anc (TagNode r tg as cs) then TypeSvg else TypeElement)
     \<and> at = filter isGenericAttribute (List.map_filter (compileAttribute env) as)
     \<and> ev = filter isEventAttribute (List.map_filter (compileAttribute env) as)"
  by (simp add: visit_def Let_def)

lemma visit_Text:
  "visit env anc (TextNode r t) par = TextElementNode (TextNode r t) par (decode env t)"
  by (simp add: visit_def)

lemma nameof_withParent: "nameof (withParent d par) = nameof d"
  by (cases d) (simp_all add: nameof_def split: option.split)

lemma nameof_setChildren: "nameof (setChildren d kids) = nameof d"
  by (cases d) (simp_all add: nameof_def split: option.split)

lemma nameof_visit: "nameof (visit env anc nd par) = handleOf nd"
proof (cases nd)
  case (TextNode r t)
  then show ?thesis by (simp add: visit_def nameof_def)
next
  case (TagNode r tg as cs)
  then show ?thesis
    unfolding visit_def nameof_withParent by (simp only: nameof_compileNode_Tag handleOf.simps)
qed

lemma nameof_declareTree: "nameof (declareTree env anc par nd) = handleOf nd"
  by (cases nd) (simp_all add: nameof_setChildren nameof_visit del: handleOf.simps)

lemma d_type_declareTree_Text: "d_type (declareTree env anc par (TextNode r t)) = TypeText"
  by (simp add: visit_def)

lemma declareTree_Tag:
  "\<exists>ty rt ev va at.
     visit env anc (TagNode r tg as cs) par = ElementNode (TagNode r tg as cs) par ty tg rt ev va at []
     \<and> declareTree env anc par (TagNode r tg as cs)
         = ElementNode (TagNode r tg as cs) par ty tg rt ev va at
             (map (declareTree env (TagNode r tg as cs # anc)
                (Some (ElementNode (TagNode r tg as cs) par ty tg rt ev va at []))) cs)
     \<and> ty \<noteq> TypeText"
proof -
  obtain ty rt ev va at where
    v: "visit env anc (TagNode r tg as cs) par = ElementNode (TagNode r tg as cs) par ty tg rt ev va at []"
    and t: "ty = (if shouldRenderAsSvg anc (TagNode r tg as cs) then TypeSvg else TypeElement)"
    using visit_Tag [of env anc r tg as cs par] by blast
  have "ty \<noteq> TypeText" using t by simp
  then show ?thesis using v by simp
qed

lemma linked_declareTree: "linked (declareTree env anc par nd)"
proof (induction env anc par nd rule: declareTree.induct)
  case (1 env anc parent r t)
  then show ?case by (simp add: visit_Text)
next
  case (2 env anc parent r tg as cs)
  obtain ty rt ev va at where
    v: "visit env anc (TagNode r tg as cs) parent = ElementNode (TagNode r tg as cs) parent ty tg rt ev va at []"
    using declareTree_Tag [of env anc r tg as cs parent] by blast
  show ?case using 2 v by simp
qed

lemma preorder_declareTree_Tag:
  "preorder [declareTree env anc par (TagNode r tg as cs)] =
     declareTree env anc par (TagNode r tg as cs)
       # preorder (map (declareTree env (TagNode r tg as cs # anc)
                          (Some (visit env anc (TagNode r tg as cs) par))) cs)"
proof -
  obtain ty rt ev va at where
    v: "visit env anc (TagNode r tg as cs) par = ElementNode (TagNode r tg as cs) par ty tg rt ev va at []"
    and t: "ty \<noteq> TypeText"
    using declareTree_Tag [of env anc r tg as cs par] by blast
  show ?thesis using v t by simp
qed

lemma preorder_declareTree_Text:
  "preorder [declareTree env anc par (TextNode r t)] = [declareTree env anc par (TextNode r t)]"
  by (simp add: visit_Text)

lemma cleanName_el: "cleanName (''el'' @ decimal r)"
  by (simp add: cleanName_def isWhiteSpace_def newline_decimal)

lemma cleanName_refName: "CHR 0x0A \<notin> set v \<Longrightarrow> cleanName (refName v)"
proof -
  assume a: "CHR 0x0A \<notin> set v"
  show ?thesis
  proof (cases "trim v = []")
    case True
    then show ?thesis by (simp add: refName_def cleanName_def isWhiteSpace_def)
  next
    case False
    then show ?thesis using a trim_hd [of v] set_trim [of v]
      by (auto simp: refName_def cleanName_def)
  qed
qed

lemma cleanName_handleOf: "cleanNode nd \<Longrightarrow> cleanName (handleOf nd)"
proof (cases nd)
  case (TextNode r t)
  then show ?thesis using cleanName_el [of r] by simp
next
  case (TagNode r tg as cs)
  assume c: "cleanNode nd"
  show ?thesis
  proof (cases "find (\<lambda>a. attr_name a = ''#ref'') as")
    case None
    then show ?thesis using TagNode cleanName_el [of r] by simp
  next
    case (Some a)
    then have "a \<in> set as" "attr_name a = ''#ref''"
      by (auto simp: find_Some_iff)
    then have "CHR 0x0A \<notin> set (attr_value a)" using c TagNode by auto
    then show ?thesis using Some TagNode by (simp add: cleanName_refName)
  qed
qed

lemma cleanDeclared_declareTree:
  "cleanNode nd \<Longrightarrow> cleanParent par \<Longrightarrow>
   \<forall>d\<in>set (preorder [declareTree env anc par nd]). cleanDeclared d"
proof (induction env anc par nd rule: declareTree.induct)
  case (1 env anc parent r t)
  have "cleanDeclared (declareTree env anc parent (TextNode r t))"
    unfolding cleanDeclared_def nameof_declareTree
    using 1 cleanName_handleOf [of "TextNode r t"]
    by (simp add: visit_Text cleanParent_def del: handleOf.simps)
  then show ?case unfolding preorder_declareTree_Text by simp
next
  case (2 env anc parent r tg as cs)
  let ?N = "TagNode r tg as cs"
  let ?V = "visit env anc ?N parent"
  obtain ty rt ev va at where
    v: "?V = ElementNode ?N parent ty tg rt ev va at []"
    and dt: "declareTree env anc parent ?N = ElementNode ?N parent ty tg rt ev va at
             (map (declareTree env (?N # anc) (Some (ElementNode ?N parent ty tg rt ev va at []))) cs)"
    using declareTree_Tag [of env anc r tg as cs parent] by blast
  have cn: "cleanName (handleOf ?N)" using "2.prems"(1) by (rule cleanName_handleOf)
  have self: "cleanDeclared (declareTree env anc parent ?N)"
  proof -
    have "d_type (declareTree env anc parent ?N) \<noteq> TypeText
            \<longrightarrow> CHR 0x0A \<notin> set (d_tag (declareTree env anc parent ?N))"
      unfolding dt using "2.prems"(1) by simp
    moreover have "d_parent (declareTree env anc parent ?N) = parent"
      by (rule d_parent_declareTree)
    ultimately show ?thesis
      using cn "2.prems"(2)
      by (simp add: cleanDeclared_def nameof_declareTree cleanParent_def
            del: handleOf.simps declareTree.simps)
  qed
  have cp: "cleanParent (Some ?V)"
    using cn by (simp add: cleanParent_def nameof_visit del: handleOf.simps)
  have kids: "\<forall>d\<in>set (preorder [declareTree env (?N # anc) (Some ?V) c]). cleanDeclared d"
    if "c \<in> set cs" for c
    using "2.IH" [OF that _ cp] that "2.prems"(1) by simp
  have "\<forall>d\<in>set (preorder (map (declareTree env (?N # anc) (Some ?V)) cs)). cleanDeclared d"
    using kids by (subst preorder_concat) (auto simp: comp_def)
  then show ?case unfolding preorder_declareTree_Tag using self by simp
qed

lemma cleanDeclared_forest:
  "\<forall>nd\<in>set nodes. cleanNode nd \<Longrightarrow> cleanParent par \<Longrightarrow>
   \<forall>d\<in>set (preorder (map (declareTree env anc par) nodes)). cleanDeclared d"
  using cleanDeclared_declareTree [of _ par env anc]
  by (subst preorder_concat) (auto simp: comp_def)

lemma fold_prepareStep:
  "fold prepareStep ds acc =
     \<lparr>rootNodes = rootNodes acc @ filter (\<lambda>d. d_parent d = None \<and> \<not> segregated d) ds,
      templates = templates acc
        @ filter (\<lambda>d. d_parent d = None \<and> d_type d = TypeElement \<and> d_tag d = ''template'') ds,
      scripts = scripts acc
        @ filter (\<lambda>d. d_parent d = None \<and> d_type d = TypeElement \<and> d_tag d = ''script'') ds,
      styles = styles acc
        @ filter (\<lambda>d. d_parent d = None \<and> d_type d = TypeElement \<and> d_tag d = ''style'') ds\<rparr>"
proof (induction ds arbitrary: acc)
  case Nil
  then show ?case by simp
next
  case (Cons d ds)
  show ?case
    unfolding fold_Cons comp_def Cons
    by (simp add: prepareStep_def segregated_def)
qed

lemma rootNodes_prepareNodes:
  "rootNodes (prepareNodes ds) = filter (\<lambda>d. d_parent d = None \<and> \<not> segregated d) ds"
  by (simp add: prepareNodes_def fold_prepareStep)

lemma scripts_prepareNodes:
  "scripts (prepareNodes ds) =
     filter (\<lambda>d. d_parent d = None \<and> d_type d = TypeElement \<and> d_tag d = ''script'') ds"
  by (simp add: prepareNodes_def fold_prepareStep)

lemma startsWith_append: "startsWith (p @ rest) p"
  by (simp add: startsWith_def)

lemma declares_creation: "declares (nameof nd) (creationStatement nd)"
proof -
  have "\<exists>rest. creationStatement nd = (''const '' @ nameof nd @ '' = document.create'') @ rest"
    by (simp add: creationStatement_def)
  then show ?thesis unfolding declares_def using startsWith_append by metis
qed

lemma set_preorder_filter: "set (preorder (filter P F)) \<subseteq> set (preorder F)"
  by (subst preorder_concat, subst (2) preorder_concat) auto

lemma nodeCode_lines:
  "cleanDeclared nd \<Longrightarrow> nodeCode nd = concat (map indentLine (statements nd)) @ ''\<newline>''"
  by (simp add: nodeCode_def indent_compileHtml)

lemma compile_lines:
  assumes "distinct (refIds nodes)" and "\<forall>nd\<in>set nodes. cleanNode nd"
  shows "compile env nodes =
     ''export function compile() {\<newline>''
     @ concat (map (\<lambda>nd. concat (map indentLine (statements nd)) @ ''\<newline>'')
                 (preorder (rootNodes (prepareNodes (reduce env nodes)))))
     @ concat (map scriptText (preorder (scripts (prepareNodes (reduce env nodes)))))
     @ concat (map listenerStatement
         (concat (map nodeEvents (preorder (rootNodes (prepareNodes (reduce env nodes)))))))
     @ ''}\<newline>''"
proof -
  let ?F = "map (declareTree env [] None) nodes"
  have r: "reduce env nodes = ?F" using assms(1) by (rule reduce_declareTree)
  have "\<forall>d\<in>set (preorder ?F). cleanDeclared d"
    using assms(2) by (intro cleanDeclared_forest) (simp_all add: cleanParent_def)
  then have "\<forall>d\<in>set (preorder (rootNodes (prepareNodes ?F))). cleanDeclared d"
    unfolding rootNodes_prepareNodes using set_preorder_filter by blast
  then have m: "map nodeCode (preorder (rootNodes (prepareNodes ?F)))
      = map (\<lambda>nd. concat (map indentLine (statements nd)) @ ''\<newline>'')
          (preorder (rootNodes (prepareNodes ?F)))"
    by (intro map_cong refl nodeCode_lines) blast
  show ?thesis unfolding compile_parts r m by (rule refl)
qed

lemma roots_parent_before_child:
  assumes "distinct (refIds nodes)"
    and "i < length (preorder (rootNodes (prepareNodes (reduce env nodes))))"
    and "d_parent (preorder (rootNodes (prepareNodes (reduce env nodes))) ! i) = Some parent"
  shows "\<exists>j<i. nameof (preorder (rootNodes (prepareNodes (reduce env nodes))) ! j) = nameof parent
          \<and> preorder (rootNodes (prepareNodes (reduce env nodes))) ! i
              \<in> set (d_children (preorder (rootNodes (prepareNodes (reduce env nodes))) ! j))"
proof -
  let ?F = "map (declareTree env [] None) nodes"
  let ?R = "rootNodes (prepareNodes (reduce env nodes))"
  let ?ns = "preorder ?R"
  have r: "reduce env nodes = ?F" using assms(1) by (rule reduce_declareTree)
  have R: "?R = filter (\<lambda>d. d_parent d = None \<and> \<not> segregated d) ?F"
    unfolding r rootNodes_prepareNodes ..
  have lk: "\<forall>d\<in>set ?R. linked d" unfolding R by (auto simp: linked_declareTree)
  have np: "\<forall>d\<in>set ?R. d_parent d = None" unfolding R by auto
  have split: "?ns = take i ?ns @ (?ns ! i) # drop (Suc i) ?ns"
    using assms(2) by (rule id_take_nth_drop)
  have "?ns ! i \<notin> set ?R" using np assms(3) by auto
  with parent_before_child [OF lk split]
  obtain q where q: "q \<in> set (take i ?ns)" "?ns ! i \<in> set (d_children q)"
      "d_parent (?ns ! i) = Some (setChildren q [])"
    by blast
  from q(1) obtain j where j: "j < length (take i ?ns)" "take i ?ns ! j = q"
    by (auto simp: in_set_conv_nth)
  then have ji: "j < i" and qj: "?ns ! j = q" by simp_all
  have "parent = setChildren q []" using q(3) assms(3) by simp
  then have "nameof parent = nameof q" by (simp add: nameof_setChildren)
  then show ?thesis using ji qj q(2) by auto
qed

lemma isSvgNode_iff: "isSvgNode nd = (isTagNode nd \<and> tag nd = ''svg'')"
  by (cases nd) simp_all

lemma hasSvgParent_iff: "hasSvgParent anc = (\<exists>a\<in>set anc. isTagNode a \<and> tag a = ''svg'')"
  by (induction anc) (simp_all add: isSvgNode_iff)

lemma d_type_compileNode: "d_type (compileNode env anc nd) = typeBySvg anc nd"
  by (cases nd) (simp_all add: Let_def typeBySvg_def shouldRenderAsSvg_def hasSvgParent_iff)

lemma d_type_withParent: "d_type (withParent d par) = d_type d"
  by (cases d) simp_all

lemma d_type_setChildren: "d_type (setChildren d kids) = d_type d"
  by (cases d) simp_all

lemma d_node_withParent: "d_node (withParent d par) = d_node d"
  by (cases d) simp_all

lemma d_node_setChildren: "d_node (setChildren d kids) = d_node d"
  by (cases d) simp_all

lemma d_node_compileNode: "d_node (compileNode env anc nd) = nd"
  by (cases nd) (simp_all add: Let_def)

lemma d_type_declareTree: "d_type (declareTree env anc par nd) = typeBySvg anc nd"
  by (cases nd)
     (simp_all add: visit_def d_type_setChildren d_type_withParent d_type_compileNode
        del: compileNode.simps)

lemma d_node_declareTree: "d_node (declareTree env anc par nd) = nd"
  by (cases nd)
     (simp_all add: visit_def d_node_setChildren d_node_withParent d_node_compileNode
        del: compileNode.simps)

lemma types_declareTree:
  "map (\<lambda>d. (d_node d, d_type d)) (preorder (map (declareTree env anc par) nodes))
     = map (\<lambda>(anc, nd). (nd, typeBySvg anc nd)) (withAncestors anc nodes)"
proof (induction anc nodes arbitrary: par rule: withAncestors.induct)
  case (1 anc)
  then show ?case by simp
next
  case (2 anc r t nodes)
  have "preorder (map (declareTree env anc par) (TextNode r t # nodes))
      = declareTree env anc par (TextNode r t) # preorder (map (declareTree env anc par) nodes)"
    using preorder_Cons [of "declareTree env anc par (TextNode r t)"]
    by (simp add: preorder_declareTree_Text del: declareTree.simps)
  then show ?case
    using 2 by (simp add: d_node_declareTree d_type_declareTree del: declareTree.simps)
next
  case (3 anc r tg as cs nodes)
  let ?N = "TagNode r tg as cs"
  have "preorder (map (declareTree env anc par) (?N # nodes))
      = declareTree env anc par ?N
        # preorder (map (declareTree env (?N # anc) (Some (visit env anc ?N par))) cs)
        @ preorder (map (declareTree env anc par) nodes)"
    using preorder_Cons [of "declareTree env anc par ?N"]
    by (simp add: preorder_declareTree_Tag del: declareTree.simps)
  then show ?case
    using "3.IH"(1) [of "Some (visit env anc ?N par)"] "3.IH"(2) [of par]
    by (simp add: d_node_declareTree d_type_declareTree del: declareTree.simps)
qed

lemma startsWith_iff: "startsWith s p = (\<exists>r. s = p @ r)"
  unfolding startsWith_def by (metis append_eq_conv_conj)

lemma compileHtml_svg_iff:
  "startsWith (compileHtml nd) (''const '' @ nameof nd @ '' = document.createElementNS('')
     = (d_type nd = TypeSvg)"
  by (cases "d_type nd") (simp_all add: compileHtml_statements statements_def creationStatement_def startsWith_iff)

lemma compileHtml_element_iff:
  "startsWith (compileHtml nd) (''const '' @ nameof nd @ '' = document.createElement('')
     = (d_type nd = TypeElement)"
  by (cases "d_type nd") (simp_all add: compileHtml_statements statements_def creationStatement_def startsWith_iff)

lemma compileHtml_creation:
  "startsWith (compileHtml nd) (creationStatement nd @ ''\<newline>'')"
  by (simp add: compileHtml_statements statements_def startsWith_iff)

lemma compileAttribute_plain:
  "isPlainAttribute a \<Longrightarrow>
   compileAttribute env a = Some (GenericAttribute (attr_name a) (attr_value a))"
  by (simp add: isPlainAttribute_def compileAttribute_def)

lemma compileAttribute_not_plain:
  "\<not> isPlainAttribute a \<Longrightarrow> compileAttribute env a = Some x \<Longrightarrow> \<not> isGenericAttribute x"
  by (auto simp: isPlainAttribute_def compileAttribute_def Let_def split: if_splits)

lemma generic_of_attributes:
  "filter isGenericAttribute (List.map_filter (compileAttribute env) as)
     = map (\<lambda>a. GenericAttribute (attr_name a) (attr_value a)) (filter isPlainAttribute as)"
proof (induction as)
  case Nil
  then show ?case by (simp add: List.map_filter_simps)
next
  case (Cons a as)
  show ?case
  proof (cases "isPlainAttribute a")
    case True
    then show ?thesis using Cons compileAttribute_plain [OF True, of env]
      by (simp add: List.map_filter_simps)
  next
    case False
    then show ?thesis using Cons compileAttribute_not_plain [OF False, of env]
      by (cases "compileAttribute env a") (simp_all add: List.map_filter_simps)
  qed
qed

lemma d_attributes_declareTree:
  "d_attributes (declareTree env anc par (TagNode r tg as cs))
     = map (\<lambda>a. GenericAttribute (attr_name a) (attr_value a)) (filter isPlainAttribute as)"
proof -
  obtain ty rt ev va at where
    v: "visit env anc (TagNode r tg as cs) par = ElementNode (TagNode r tg as cs) par ty tg rt ev va at []"
    and a: "at = filter isGenericAttribute (List.map_filter (compileAttribute env) as)"
    using visit_Tag [of env anc r tg as cs par] by blast
  show ?thesis using v a by (simp add: generic_of_attributes)
qed

lemma statements_declareTree_Tag:
  "statements (declareTree env anc par (TagNode r tg as cs)) =
     creationStatement (declareTree env anc par (TagNode r tg as cs))
     # map (\<lambda>a. attributeStatement (handleOf (TagNode r tg as cs)) (attr_name a) (attr_value a))
         (filter isPlainAttribute as)
     @ (case par of None \<Rightarrow> []
        | Some p \<Rightarrow> [appendStatement (nameof p) (handleOf (TagNode r tg as cs))])"
proof -
  have t: "d_type (declareTree env anc par (TagNode r tg as cs)) \<noteq> TypeText"
    by (simp add: d_type_declareTree typeBySvg_def del: declareTree.simps)
  show ?thesis
    unfolding statements_def attributeStatements_def d_attributes_declareTree
      d_parent_declareTree nameof_declareTree
    using t by (simp add: comp_def del: declareTree.simps handleOf.simps)
qed

lemma compileHtml_svg_line_iff:
  "startsWith (compileHtml nd)
     (''const '' @ nameof nd @ '' = document.createElementNS(\"http://www.w3.org/2000/svg\", \"''
        @ d_tag nd @ ''\");\<newline>'')
     = (d_type nd = TypeSvg)"
  by (cases "d_type nd")
     (simp_all add: compileHtml_statements statements_def creationStatement_def startsWith_iff)

lemma compileHtml_element_line_iff:
  "startsWith (compileHtml nd)
     (''const '' @ nameof nd @ '' = document.createElement(\"'' @ d_tag nd @ ''\");\<newline>'')
     = (d_type nd = TypeElement)"
  by (cases "d_type nd")
     (simp_all add: compileHtml_statements statements_def creationStatement_def startsWith_iff)

lemma d_tag_declareTree:
  "d_tag (declareTree env anc par (TagNode r tg as cs)) = tg"
proof -
  obtain ty rt ev va at where
    "declareTree env anc par (TagNode r tg as cs)
       = ElementNode (TagNode r tg as cs) par ty tg rt ev va at
           (map (declareTree env (TagNode r tg as cs # anc)
              (Some (ElementNode (TagNode r tg as cs) par ty tg rt ev va at []))) cs)"
    using declareTree_Tag [of env anc r tg as cs par] by blast
  then show ?thesis by simp
qed

lemma segregated_declareTree:
  "segregated (declareTree env [] None nd) = segregatedRoot nd"
proof (cases nd)
  case (TextNode r t)
  then show ?thesis
    by (simp add: segregated_def segregatedRoot_def d_type_declareTree typeBySvg_def
          del: declareTree.simps)
next
  case (TagNode r tg as cs)
  then show ?thesis
    by (auto simp: segregated_def segregatedRoot_def d_type_declareTree typeBySvg_def
          d_tag_declareTree simp del: declareTree.simps)
qed

lemma script_declareTree:
  "(d_type (declareTree env [] None nd) = TypeElement \<and> d_tag (declareTree env [] None nd) = ''script'')
     = scriptRoot nd"
proof (cases nd)
  case (TextNode r t)
  then show ?thesis
    by (simp add: scriptRoot_def d_type_declareTree typeBySvg_def del: declareTree.simps)
next
  case (TagNode r tg as cs)
  then show ?thesis
    by (auto simp: scriptRoot_def d_type_declareTree typeBySvg_def d_tag_declareTree
          simp del: declareTree.simps)
qed

lemma rootNodes_declared:
  "rootNodes (prepareNodes (map (declareTree env [] None) nodes))
     = map (declareTree env [] None) (filter (\<lambda>nd. \<not> segregatedRoot nd) nodes)"
  unfolding rootNodes_prepareNodes filter_map
  by (simp add: comp_def segregated_declareTree del: declareTree.simps)

lemma scripts_declared:
  "scripts (prepareNodes (map (declareTree env [] None) nodes))
     = map (declareTree env [] None) (filter scriptRoot nodes)"
  unfolding scripts_prepareNodes filter_map
  by (simp add: comp_def script_declareTree del: declareTree.simps)

lemma set_refIds_filter: "set (refIds (filter P nodes)) \<subseteq> set (refIds nodes)"
proof (induction nodes)
  case Nil
  then show ?case by simp
next
  case (Cons a nodes)
  then show ?case
    using refIds_Cons [of a nodes] refIds_Cons [of a "filter P nodes"] by auto
qed

lemma distinct_refIds_filter: "distinct (refIds nodes) \<Longrightarrow> distinct (refIds (filter P nodes))"
proof (induction nodes)
  case Nil
  then show ?case by simp
next
  case (Cons a nodes)
  have d: "distinct (refIds [a])" "distinct (refIds nodes)"
    and dj: "set (refIds [a]) \<inter> set (refIds nodes) = {}"
    using Cons.prems by (simp_all add: refIds_Cons [of a nodes])
  show ?case
  proof (cases "P a")
    case True
    have "set (refIds [a]) \<inter> set (refIds (filter P nodes)) = {}"
      using dj set_refIds_filter [of P nodes] by blast
    then show ?thesis
      using True d Cons.IH by (simp add: refIds_Cons [of a "filter P nodes"])
  next
    case False
    then show ?thesis using d Cons.IH by simp
  qed
qed

lemma compile_declared:
  assumes "distinct (refIds nodes)"
  shows "compile env nodes =
     ''export function compile() {\<newline>''
     @ concat (map nodeCode (preorder (map (declareTree env [] None)
                 (filter (\<lambda>nd. \<not> segregatedRoot nd) nodes))))
     @ concat (map scriptText (preorder (map (declareTree env [] None) (filter scriptRoot nodes))))
     @ concat (map listenerStatement
         (concat (map nodeEvents (preorder (map (declareTree env [] None)
                 (filter (\<lambda>nd. \<not> segregatedRoot nd) nodes))))))
     @ ''}\<newline>''"
  unfolding compile_parts reduce_declareTree [OF assms] rootNodes_declared scripts_declared
  by (rule refl)

lemma splitBy_nonempty: "splitBy p s \<noteq> []"
  by (induction s) (auto split: list.split)

lemma splitBy_hd: "hd (splitBy p s) = takeWhile (\<lambda>c. \<not> p c) s"
  using splitBy_nonempty [of p] by (induction s) (auto split: list.split)

lemma splitBy_nth0: "splitBy p s ! 0 = takeWhile (\<lambda>c. \<not> p c) s"
  using splitBy_hd [of p s] splitBy_nonempty [of p s] by (simp add: hd_conv_nth)

lemma splitBy_on:
  "splitBy (\<lambda>c. c = CHR '':'') (''on:'' @ rest) = ''on'' # splitBy (\<lambda>c. c = CHR '':'') rest"
  by (simp split: list.split add: splitBy_nonempty)

lemma indexOf_on: "indexOf (''on:'' @ rest) CHR '':'' = 2"
  by (simp add: indexOf_def)

lemma compileAttribute_on:
  "startsWith v ''{'' \<Longrightarrow>
   compileAttribute env (NodeAttribute (''on:'' @ rest) v)
     = Some (EventAttribute
         (takeWhile (\<lambda>c. \<not> isSeparator c) (takeWhile (\<lambda>c. c \<noteq> CHR '':'') rest))
         (tl (splitBy isSeparator (takeWhile (\<lambda>c. c \<noteq> CHR '':'') rest)))
         (trim (trimAny env v [''{'', ''}''])))"
proof -
  assume v: "startsWith v ''{''"
  have s: "\<not> startsWith (''on:'' @ rest) ''=''" "''on:'' @ rest \<noteq> ''#ref''"
    "\<not> startsWith (''on:'' @ rest) ''{''"
    by (simp_all add: startsWith_def)
  have sep: "(\<lambda>c. c = CHR ''|'' \<or> c = CHR ''.'') = isSeparator"
    by (auto simp: isSeparator_def)
  have p1: "splitBy (\<lambda>c. c = CHR '':'') (''on:'' @ rest) ! 1 = takeWhile (\<lambda>c. c \<noteq> CHR '':'') rest"
    unfolding splitBy_on using splitBy_nth0 [of "\<lambda>c. c = CHR '':''" rest] by simp
  have p0: "splitBy (\<lambda>c. c = CHR '':'') (''on:'' @ rest) ! 0 = ''on''"
    unfolding splitBy_on by simp
  show ?thesis
    unfolding compileAttribute_def Let_def nodeAttribute.sel sep p1 p0 indexOf_on splitBy_nth0
    using s v by simp
qed

lemma takeWhile_takeWhile: "takeWhile P (takeWhile Q xs) = takeWhile (\<lambda>x. P x \<and> Q x) xs"
  by (induction xs) simp_all

lemma startsWith_on_split: "startsWith name ''on:'' \<Longrightarrow> name = ''on:'' @ drop 3 name"
proof -
  assume "startsWith name ''on:''"
  then have "take (length ''on:'') name = ''on:''" by (simp only: startsWith_def)
  then have "name = ''on:'' @ drop (length ''on:'') name" by (metis append_take_drop_id)
  then show ?thesis by (simp add: numeral_3_eq_3)
qed

lemma compileAttribute_dropModifiers:
  "map_option eraseAttribute (compileAttribute env (dropModifiers a))
     = map_option eraseAttribute (compileAttribute env a)"
proof (cases a)
  case (NodeAttribute name v)
  show ?thesis
  proof (cases "startsWith name ''on:'' \<and> startsWith v ''{''")
    case True
    then have n: "name = ''on:'' @ drop 3 name" and v: "startsWith v ''{''"
      using startsWith_on_split by simp_all
    have d: "dropModifiers a = NodeAttribute (''on:'' @ takeWhile (\<lambda>c. \<not> isSeparator c) (drop 3 name)) v"
      using True NodeAttribute by simp
    have a: "a = NodeAttribute (''on:'' @ drop 3 name) v" using NodeAttribute n by simp
    have e1: "compileAttribute env (dropModifiers a)
        = Some (EventAttribute
           (takeWhile (\<lambda>c. \<not> isSeparator c)
              (takeWhile (\<lambda>c. c \<noteq> CHR '':'') (takeWhile (\<lambda>c. \<not> isSeparator c) (drop 3 name))))
           (tl (splitBy isSeparator
              (takeWhile (\<lambda>c. c \<noteq> CHR '':'') (takeWhile (\<lambda>c. \<not> isSeparator c) (drop 3 name)))))
           (trim (trimAny env v [''{'', ''}''])))"
      unfolding d by (rule compileAttribute_on [OF v])
    have e2: "compileAttribute env a
        = Some (EventAttribute
           (takeWhile (\<lambda>c. \<not> isSeparator c) (takeWhile (\<lambda>c. c \<noteq> CHR '':'') (drop 3 name)))
           (tl (splitBy isSeparator (takeWhile (\<lambda>c. c \<noteq> CHR '':'') (drop 3 name))))
           (trim (trimAny env v [''{'', ''}''])))"
      by (subst a) (rule compileAttribute_on [OF v])
    have "(\<lambda>x. \<not> isSeparator x \<and> x \<noteq> CHR '':'' \<and> \<not> isSeparator x)
            = (\<lambda>x. \<not> isSeparator x \<and> x \<noteq> CHR '':'')"
      by auto
    then show ?thesis
      unfolding e1 e2 by (simp add: takeWhile_takeWhile)
  next
    case False
    then show ?thesis using NodeAttribute by auto
  qed
qed

lemma map_filter_dropModifiers:
  "map eraseAttribute (List.map_filter (compileAttribute env) (map dropModifiers as))
     = map eraseAttribute (List.map_filter (compileAttribute env) as)"
proof (induction as)
  case Nil
  then show ?case by (simp add: List.map_filter_simps)
next
  case (Cons a as)
  show ?case
    using Cons compileAttribute_dropModifiers [of env a]
    by (cases "compileAttribute env a"; cases "compileAttribute env (dropModifiers a)")
       (simp_all add: List.map_filter_simps)
qed

lemma erased_filter:
  assumes "map eraseAttribute L' = map eraseAttribute L"
    and "\<And>x. P (eraseAttribute x) = P x"
  shows "map eraseAttribute (filter P L') = map eraseAttribute (filter P L)"
proof -
  have "map eraseAttribute (filter P M) = filter P (map eraseAttribute M)" for M
    by (simp add: filter_map comp_def assms(2))
  then show ?thesis using assms(1) by simp
qed

lemma erased_filter_same:
  assumes "map eraseAttribute L' = map eraseAttribute L"
    and "\<And>x. P (eraseAttribute x) = P x"
    and "\<And>x. P x \<Longrightarrow> eraseAttribute x = x"
  shows "filter P L' = filter P L"
proof -
  have "map eraseAttribute (filter P M) = filter P M" for M
    by (rule map_idI) (simp add: assms(3))
  then show ?thesis using erased_filter [of L' L P, OF assms(1) assms(2)] by simp
qed

lemma isEvent_erase: "isEventAttribute (eraseAttribute x) = isEventAttribute x"
  by (cases x) simp_all

lemma isVariable_erase: "isVariableAttribute (eraseAttribute x) = isVariableAttribute x"
  by (cases x) simp_all

lemma isGeneric_erase: "isGenericAttribute (eraseAttribute x) = isGenericAttribute x"
  by (cases x) simp_all

lemma isRef_erase: "isRefAttribute (eraseAttribute x) = isRefAttribute x"
  by (cases x) simp_all

lemma find_as_filter: "find P xs = (case filter P xs of [] \<Rightarrow> None | x # _ \<Rightarrow> Some x)"
  by (induction xs) simp_all

lemma erased_find_ref:
  assumes "map eraseAttribute L' = map eraseAttribute L"
  shows "find isRefAttribute L' = find isRefAttribute L"
proof -
  have "filter isRefAttribute L' = filter isRefAttribute L"
    using assms by (rule erased_filter_same) (auto simp: isRef_erase elim: isRefAttribute.elims)
  then show ?thesis by (simp add: find_as_filter)
qed

lemma isSvgNode_withoutModifiers: "isSvgNode (withoutModifiers nd) = isSvgNode nd"
  by (cases nd) simp_all

lemma hasSvgParent_withoutModifiers: "hasSvgParent (map withoutModifiers anc) = hasSvgParent anc"
  by (induction anc) (simp_all add: isSvgNode_withoutModifiers)

lemma refId_withoutModifiers: "refId (withoutModifiers nd) = refId nd"
  by (cases nd) simp_all

lemma erase_withParent: "erase (withParent d par) = withParent (erase d) (map_option erase par)"
  by (cases d) simp_all

lemma erase_setChildren: "erase (setChildren d kids) = setChildren (erase d) (map erase kids)"
  by (cases d) simp_all

lemma erase_compileNode:
  "erase (compileNode env (map withoutModifiers anc) (withoutModifiers nd))
     = erase (compileNode env anc nd)"
proof (cases nd)
  case (TextNode r t)
  then show ?thesis by simp
next
  case (TagNode r tg as cs)
  let ?L' = "List.map_filter (compileAttribute env) (map dropModifiers as)"
  let ?L = "List.map_filter (compileAttribute env) as"
  have m: "map eraseAttribute ?L' = map eraseAttribute ?L" by (rule map_filter_dropModifiers)
  have ev: "map eraseAttribute (filter isEventAttribute ?L')
              = map eraseAttribute (filter isEventAttribute ?L)"
    using m by (rule erased_filter) (rule isEvent_erase)
  have va: "filter isVariableAttribute ?L' = filter isVariableAttribute ?L"
    using m by (rule erased_filter_same) (auto simp: isVariable_erase elim: isVariableAttribute.elims)
  have at: "filter isGenericAttribute ?L' = filter isGenericAttribute ?L"
    using m by (rule erased_filter_same) (auto simp: isGeneric_erase elim: isGenericAttribute.elims)
  have rf: "find isRefAttribute ?L' = find isRefAttribute ?L"
    using m by (rule erased_find_ref)
  have sv: "shouldRenderAsSvg (map withoutModifiers anc) (withoutModifiers nd) = shouldRenderAsSvg anc nd"
    by (simp add: shouldRenderAsSvg_def isSvgNode_withoutModifiers hasSvgParent_withoutModifiers)
  show ?thesis
    using ev va at rf sv unfolding TagNode by (simp add: Let_def)
qed

lemma erase_visit:
  "map_option erase par' = map_option erase par \<Longrightarrow>
   erase (visit env (map withoutModifiers anc) (withoutModifiers nd) par') = erase (visit env anc nd par)"
  by (simp add: visit_def erase_withParent erase_compileNode)

lemma erase_declareTree:
  "map_option erase par' = map_option erase par \<Longrightarrow>
   erase (declareTree env (map withoutModifiers anc) par' (withoutModifiers nd))
     = erase (declareTree env anc par nd)"
proof (induction env anc par nd arbitrary: par' rule: declareTree.induct)
  case (1 env anc parent r t)
  then show ?case using erase_visit [of par' parent env anc "TextNode r t"] by simp
next
  case (2 env anc parent r tg as cs)
  let ?N = "TagNode r tg as cs"
  let ?V = "visit env anc ?N parent"
  let ?V' = "visit env (map withoutModifiers anc) (withoutModifiers ?N) par'"
  have v: "erase ?V' = erase ?V" using "2.prems" by (rule erase_visit)
  have kids: "erase (declareTree env (map withoutModifiers (?N # anc)) (Some ?V') (withoutModifiers c))
      = erase (declareTree env (?N # anc) (Some ?V) c)" if "c \<in> set cs" for c
    using "2.IH" [OF that, of "Some ?V'"] v by simp
  have K: "map erase (map (declareTree env (withoutModifiers ?N # map withoutModifiers anc) (Some ?V'))
                    (map withoutModifiers cs))
      = map erase (map (declareTree env (?N # anc) (Some ?V)) cs)"
    using kids by simp
  have dt': "declareTree env (map withoutModifiers anc) par' (withoutModifiers ?N)
      = setChildren ?V' (map (declareTree env (withoutModifiers ?N # map withoutModifiers anc) (Some ?V'))
                           (map withoutModifiers cs))"
    by simp
  have dt: "declareTree env anc parent ?N
      = setChildren ?V (map (declareTree env (?N # anc) (Some ?V)) cs)"
    by simp
  show ?case unfolding dt' dt erase_setChildren v K by (rule refl)
qed

lemma d_type_erase: "d_type (erase d) = d_type d"
  by (cases d) simp_all

lemma d_content_erase: "d_content (erase d) = d_content d"
  by (cases d) (simp_all add: d_content_def)

lemma d_tag_erase: "d_tag (erase d) = d_tag d"
  by (cases d) (simp_all add: d_tag_def)

lemma d_attributes_erase: "d_attributes (erase d) = d_attributes d"
  by (cases d) (simp_all add: d_attributes_def)

lemma d_parent_erase: "d_parent (erase d) = map_option erase (d_parent d)"
  by (cases d) simp_all

lemma d_events_erase:
  "d_type d \<noteq> TypeText \<Longrightarrow> d_events (erase d) = map eraseAttribute (d_events d)"
  by (cases d) simp_all

lemma nameof_erase: "nameof (erase d) = nameof d"
  by (cases d) (simp_all add: nameof_def split: option.split)

lemma statements_erase: "statements (erase d) = statements d"
  unfolding statements_def creationStatement_def attributeStatements_def nameof_erase
    d_type_erase d_content_erase d_tag_erase d_attributes_erase d_parent_erase
  by (cases "d_parent d") (simp_all add: nameof_erase)

lemma nodeCode_erase: "nodeCode (erase d) = nodeCode d"
  by (simp add: nodeCode_def compileHtml_statements statements_erase)

lemma scriptText_erase: "scriptText (erase d) = scriptText d"
  by (simp add: scriptText_def d_type_erase d_content_erase)

lemma listener_erase:
  "listenerStatement (erase d, eraseAttribute e) = listenerStatement (d, e)"
  by (cases e) (simp_all add: listenerStatement_def nameof_erase)

lemma listeners_erase:
  "map listenerStatement (nodeEvents (erase d)) = map listenerStatement (nodeEvents d)"
  by (simp add: nodeEvents_def d_type_erase d_events_erase comp_def listener_erase)

lemma preorder_erase: "preorder (map erase ds) = map erase (preorder ds)"
  by (induction ds rule: preorder.induct) simp_all

lemma code_erased: "concat (map nodeCode (preorder (map erase F))) = concat (map nodeCode (preorder F))"
  by (simp add: preorder_erase comp_def nodeCode_erase)

lemma scripts_erased:
  "concat (map scriptText (preorder (map erase F))) = concat (map scriptText (preorder F))"
  by (simp add: preorder_erase comp_def scriptText_erase)

lemma listeners_erased:
  "concat (map listenerStatement (concat (map nodeEvents (preorder (map erase F)))))
     = concat (map listenerStatement (concat (map nodeEvents (preorder F))))"
  by (simp add: preorder_erase map_concat comp_def listeners_erase)

lemma refIds_withoutModifiers: "refIds (map withoutModifiers nodes) = refIds nodes"
proof (induction nodes rule: preorderNodes.induct)
  case 1
  then show ?case by simp
next
  case (2 r t nodes)
  then show ?case by (simp add: refIds_def)
next
  case (3 r tg as cs nodes)
  then show ?case by (simp add: refIds_def)
qed

lemma segregatedRoot_withoutModifiers: "segregatedRoot (withoutModifiers nd) = segregatedRoot nd"
  by (cases nd) (simp_all add: segregatedRoot_def)

lemma scriptRoot_withoutModifiers: "scriptRoot (withoutModifiers nd) = scriptRoot nd"
  by (cases nd) (simp_all add: scriptRoot_def)

lemma erase_declared_roots:
  "map erase (map (declareTree env [] None) (filter P (map withoutModifiers nodes)))
     = map erase (map (declareTree env [] None) (filter (\<lambda>nd. P (withoutModifiers nd)) nodes))"
proof -
  have "erase (declareTree env [] None (withoutModifiers nd)) = erase (declareTree env [] None nd)"
    for nd
    using erase_declareTree [of None None env "[]" nd] by simp
  then show ?thesis by (simp add: filter_map comp_def del: declareTree.simps)
qed

lemma compile_withoutModifiers:
  assumes "distinct (refIds nodes)"
  shows "compile env (map withoutModifiers nodes) = compile env nodes"
proof -
  have d': "distinct (refIds (map withoutModifiers nodes))"
    using assms by (simp add: refIds_withoutModifiers)
  let ?F' = "map (declareTree env [] None) (filter (\<lambda>nd. \<not> segregatedRoot nd) (map withoutModifiers nodes))"
  let ?F = "map (declareTree env [] None) (filter (\<lambda>nd. \<not> segregatedRoot nd) nodes)"
  let ?S' = "map (declareTree env [] None) (filter scriptRoot (map withoutModifiers nodes))"
  let ?S = "map (declareTree env [] None) (filter scriptRoot nodes)"
  have F: "map erase ?F' = map erase ?F"
    unfolding erase_declared_roots segregatedRoot_withoutModifiers by (rule refl)
  have S: "map erase ?S' = map erase ?S"
    unfolding erase_declared_roots scriptRoot_withoutModifiers by (rule refl)
  have c: "concat (map nodeCode (preorder ?F')) = concat (map nodeCode (preorder ?F))"
    using code_erased [of ?F'] code_erased [of ?F] F by simp
  have s: "concat (map scriptText (preorder ?S')) = concat (map scriptText (preorder ?S))"
    using scripts_erased [of ?S'] scripts_erased [of ?S] S by simp
  have l: "concat (map listenerStatement (concat (map nodeEvents (preorder ?F'))))
         = concat (map listenerStatement (concat (map nodeEvents (preorder ?F))))"
    using listeners_erased [of ?F'] listeners_erased [of ?F] F by simp
  show ?thesis
    unfolding compile_declared [OF assms] compile_declared [OF d'] c s l by (rule refl)
qed

lemma fold_legacyRemoveStep:
  "l_nodes (fold legacyRemoveStep (rev nodes) s)
     = filter (\<lambda>nd. \<not> segregatedRoot nd) nodes @ l_nodes s"
proof (induction nodes)
  case Nil
  then show ?case by simp
next
  case (Cons a nodes)
  then show ?case
    by (auto simp: legacyRemoveStep_def segregatedRoot_def)
qed

lemma l_nodes_legacyRemove:
  "l_nodes (legacyRemove nodes) = filter (\<lambda>nd. \<not> segregatedRoot nd) nodes"
  by (simp add: legacyRemove_def fold_legacyRemoveStep)

lemma legacyCompile_nothing_left:
  "\<forall>nd\<in>set nodes. segregatedRoot nd \<Longrightarrow> legacyCompile env nodes = Inr []"
proof -
  assume "\<forall>nd\<in>set nodes. segregatedRoot nd"
  then have "l_nodes (legacyRemove nodes) = []"
    by (simp add: l_nodes_legacyRemove)
  then show ?thesis by (simp add: legacyCompile_def Let_def flat_def)
qed

lemma compile_nonempty: "compile env nodes \<noteq> []"
  by (simp add: compile_parts)

lemma compile_only_segregated:
  assumes "distinct (refIds nodes)" and "\<forall>nd\<in>set nodes. segregatedRoot nd"
  shows "compile env nodes =
     ''export function compile() {\<newline>''
     @ concat (map scriptText (preorder (map (declareTree env [] None) (filter scriptRoot nodes))))
     @ ''}\<newline>''"
proof -
  have "filter (\<lambda>nd. \<not> segregatedRoot nd) nodes = []" using assms(2) by simp
  then show ?thesis unfolding compile_declared [OF assms(1)] by simp
qed

lemma replaceRuns_removes: "p c \<Longrightarrow> \<not> p r \<Longrightarrow> c \<notin> set (replaceRuns p [r] v)"
  by (induction p "[r]" v rule: replaceRuns.induct) auto

lemma trim_last: "trim s \<noteq> [] \<Longrightarrow> \<not> isWhiteSpace (last (trim s))"
proof -
  assume a: "trim s \<noteq> []"
  let ?t = "dropWhile isWhiteSpace (rev (trimStart s))"
  have n: "?t \<noteq> []" using a by (simp add: trim_def trimEnd_def)
  have "last (trim s) = hd ?t" using n by (simp add: trim_def trimEnd_def last_rev)
  then show ?thesis using n hd_dropWhile [of isWhiteSpace "rev (trimStart s)"] by simp
qed

lemma attribs_fold:
  "distinct (map fst (acc @ ws)) \<Longrightarrow>
   fold (\<lambda>(name, v) obj.
           if name = ''__proto__'' \<or> name \<in> set (map fst obj) then obj else obj @ [(name, v)])
     ws acc
     = acc @ filter (\<lambda>w. fst w \<noteq> ''__proto__'') ws"
proof (induction ws arbitrary: acc)
  case Nil
  then show ?case by simp
next
  case (Cons w ws)
  obtain n v where w: "w = (n, v)" by (cases w)
  show ?case
  proof (cases "n = ''__proto__''")
    case True
    have "distinct (map fst (acc @ ws))" using Cons.prems by simp
    then show ?thesis using Cons.IH [of acc] w True by simp
  next
    case False
    have "n \<notin> set (map fst acc)" using Cons.prems w by auto
    moreover have "distinct (map fst ((acc @ [w]) @ ws))" using Cons.prems by simp
    ultimately show ?thesis using Cons.IH [of "acc @ [w]"] w False by simp
  qed
qed

lemma attribs_distinct:
  "distinct (map fst ws) \<Longrightarrow> attribs ws = filter (\<lambda>w. fst w \<noteq> ''__proto__'') ws"
  using attribs_fold [of "[]" ws] by (simp add: attribs_def)

lemma insort_key_map:
  "k x = k' (f x) \<Longrightarrow> \<forall>y\<in>set ys. k y = k' (f y) \<Longrightarrow>
   map f (insort_key k x ys) = insort_key k' (f x) (map f ys)"
  by (induction ys) simp_all

lemma sort_key_map:
  "\<forall>x\<in>set xs. k x = k' (f x) \<Longrightarrow> map f (sort_key k xs) = sort_key k' (map f xs)"
proof (induction xs)
  case Nil
  then show ?case by simp
next
  case (Cons x xs)
  have "map f (insort_key k x (sort_key k xs)) = insort_key k' (f x) (map f (sort_key k xs))"
    using Cons.prems by (intro insort_key_map) simp_all
  then show ?case using Cons by simp
qed

lemma not_index_o: "\<not> isArrayIndex (CHR ''o'' # s)"
  by (simp add: isArrayIndex_def)

lemma not_index_on: "startsWith n ''on:'' \<Longrightarrow> \<not> isArrayIndex n"
  by (cases n) (auto simp: startsWith_def not_index_o)

lemma index_dropModifiers:
  "isArrayIndex (attr_name (dropModifiers a)) = isArrayIndex (attr_name a)"
proof (cases a)
  case (NodeAttribute n v)
  show ?thesis
  proof (cases "startsWith n ''on:'' \<and> startsWith v ''{''")
    case True
    then show ?thesis using NodeAttribute not_index_on [of n] by (simp add: not_index_o)
  next
    case False
    then show ?thesis using NodeAttribute by auto
  qed
qed

lemma name_dropModifiers:
  "isArrayIndex (attr_name a) \<Longrightarrow> attr_name (dropModifiers a) = attr_name a"
proof (cases a)
  case (NodeAttribute n v)
  assume "isArrayIndex (attr_name a)"
  then have "\<not> startsWith n ''on:''" using NodeAttribute not_index_on [of n] by auto
  then show ?thesis using NodeAttribute by simp
qed

lemma keyOrder_map:
  assumes "\<forall>w\<in>set ws. isArrayIndex (attr_name (g w)) = isArrayIndex (fst w)"
    and "\<forall>w\<in>set ws. isArrayIndex (fst w) \<longrightarrow> attr_name (g w) = fst w"
  shows "map g (keyOrder ws)
     = sort_key (\<lambda>a. numberOf (attr_name a)) (filter (\<lambda>a. isArrayIndex (attr_name a)) (map g ws))
       @ filter (\<lambda>a. \<not> isArrayIndex (attr_name a)) (map g ws)"
proof -
  have f1: "filter (\<lambda>a. isArrayIndex (attr_name a)) (map g ws)
      = map g (filter (\<lambda>(name, v). isArrayIndex name) ws)"
    unfolding filter_map using assms(1) by (auto intro!: arg_cong [where f = "map g"] filter_cong)
  have f2: "filter (\<lambda>a. \<not> isArrayIndex (attr_name a)) (map g ws)
      = map g (filter (\<lambda>(name, v). \<not> isArrayIndex name) ws)"
    unfolding filter_map using assms(1) by (auto intro!: arg_cong [where f = "map g"] filter_cong)
  have s: "map g (sort_key (\<lambda>(name, v). numberOf name) (filter (\<lambda>(name, v). isArrayIndex name) ws))
      = sort_key (\<lambda>a. numberOf (attr_name a)) (map g (filter (\<lambda>(name, v). isArrayIndex name) ws))"
    by (rule sort_key_map) (use assms(2) in auto)
  show ?thesis unfolding keyOrder_def f1 f2 map_append s by (rule refl)
qed

lemma normalize_as_map:
  "map dropModifiers (normalizeAttributes ws)
     = map (\<lambda>w. dropModifiers (NodeAttribute (fst w) (trim (replaceRuns isNewline '' '' (snd w))))) ws"
  by (simp add: normalizeAttributes_def case_prod_beta)

lemma proto_dropModifiers:
  "(attr_name (dropModifiers a) = ''__proto__'') = (attr_name a = ''__proto__'')"
  by (cases a) (auto simp: startsWith_def)

lemma parsed_attributes_modifiers:
  assumes "distinct (map fst ws)" and "distinct (map fst ws')"
    and "map dropModifiers (normalizeAttributes ws) = map dropModifiers (normalizeAttributes ws')"
  shows "map dropModifiers (normalizeAttributes (keyOrder (attribs ws)))
     = map dropModifiers (normalizeAttributes (keyOrder (attribs ws')))"
proof -
  let ?g = "\<lambda>w. dropModifiers (NodeAttribute (fst w) (trim (replaceRuns isNewline '' '' (snd w))))"
  have k: "map ?g (keyOrder xs)
     = sort_key (\<lambda>a. numberOf (attr_name a)) (filter (\<lambda>a. isArrayIndex (attr_name a)) (map ?g xs))
       @ filter (\<lambda>a. \<not> isArrayIndex (attr_name a)) (map ?g xs)" for xs
    by (rule keyOrder_map)
       (simp_all add: index_dropModifiers name_dropModifiers del: dropModifiers.simps)
  have f: "map ?g (filter (\<lambda>w. fst w \<noteq> ''__proto__'') xs)
     = filter (\<lambda>a. attr_name a \<noteq> ''__proto__'') (map ?g xs)" for xs
    unfolding filter_map
    by (simp add: comp_def proto_dropModifiers del: dropModifiers.simps)
  have m: "map ?g ws = map ?g ws'" using assms(3) unfolding normalize_as_map .
  show ?thesis
    unfolding attribs_distinct [OF assms(1)] attribs_distinct [OF assms(2)] normalize_as_map k f m
    by (rule refl)
qed

lemma compileHtml_text_line_iff:
  "startsWith (compileHtml nd)
     (''const '' @ nameof nd @ '' = document.createTextNode('' @ JSON_stringify (d_content nd)
        @ '');\<newline>'')
     = (d_type nd = TypeText)"
  by (cases "d_type nd")
     (simp_all add: compileHtml_statements statements_def creationStatement_def startsWith_iff)

lemma nodes_declareTree:
  "map d_node (preorder (map (declareTree env anc par) nodes)) = map snd (withAncestors anc nodes)"
proof -
  have "map d_node (preorder (map (declareTree env anc par) nodes))
      = map fst (map (\<lambda>d. (d_node d, d_type d)) (preorder (map (declareTree env anc par) nodes)))"
    by (simp add: comp_def)
  also have "\<dots> = map fst (map (\<lambda>(anc, nd). (nd, typeBySvg anc nd)) (withAncestors anc nodes))"
    by (simp only: types_declareTree)
  also have "\<dots> = map snd (withAncestors anc nodes)"
    by (simp add: comp_def case_prod_beta)
  finally show ?thesis .
qed

lemma snd_withAncestors: "map snd (withAncestors anc nodes) = preorderNodes nodes"
  by (induction anc nodes rule: withAncestors.induct) simp_all

section \<open>The claims\<close>

subsection \<open>C4: event listeners come last, in walk order\<close>

text \<open>
  C4. For every input, the output of \<open>compile\<close> is the header, then one block of
  statements per declared node in the order of the structural walk (creation,
  attributes, assembly), then the spliced script text, then one event-listener
  registration per event directive, then the closing brace. The registrations are those
  of the events in the order the walk met them: node after node in pre-order, and for a
  node its events in sequence. No registration stands before the end of the script text.
\<close>

theorem events_after_structure_and_scripts:
  "compile env nodes =
     ''export function compile() {\<newline>''
     @ concat (map nodeCode (preorder (rootNodes (prepareNodes (reduce env nodes)))))
     @ concat (map scriptText (preorder (scripts (prepareNodes (reduce env nodes)))))
     @ concat (map listenerStatement
         (concat (map nodeEvents (preorder (rootNodes (prepareNodes (reduce env nodes)))))))
     @ ''}\<newline>''"
  by (simp add: compile_def Let_def walkDeclared_fold fold_emitNode fold_spliceScript fold_bindCode)

text \<open>
  On \<open><div on:click={onClick}><img {src} on:load={onLoad}></div>\<close> followed by a script,
  the two registrations stand after the script text, the one of the outer element first.
\<close>

theorem events_after_structure_and_scripts_witness:
  "compile plainEnv
     [TagNode 1 ''div'' [NodeAttribute ''on:click'' ''{onClick}'']
        [TagNode 2 ''img'' [NodeAttribute ''{src}'' [], NodeAttribute ''on:load'' ''{onLoad}''] []],
      TagNode 3 ''script'' [] [TextNode 4 ''function onClick() {}'']]
   = ''export function compile() {\<newline>''
     @ ''  const el1 = document.createElement(\"div\");\<newline>\<newline>''
     @ ''  const el2 = document.createElement(\"img\");\<newline>''
     @ ''  el1.appendChild(el2);\<newline>\<newline>''
     @ ''function onClick() {}\<newline>\<newline>''
     @ ''  el1.addEventListener(\"click\", onClick)\<newline>''
     @ ''  el2.addEventListener(\"load\", onLoad)\<newline>''
     @ ''}\<newline>''"
proof -
  let ?ex = "[TagNode 1 ''div'' [NodeAttribute ''on:click'' ''{onClick}'']
        [TagNode 2 ''img'' [NodeAttribute ''{src}'' [], NodeAttribute ''on:load'' ''{onLoad}''] []],
      TagNode 3 ''script'' [] [TextNode 4 ''function onClick() {}'']]"
  have "compile plainEnv ?ex =
     ''export function compile() {\<newline>''
     @ concat (map nodeCode (preorder (rootNodes (prepareNodes (reduce plainEnv ?ex)))))
     @ concat (map scriptText (preorder (scripts (prepareNodes (reduce plainEnv ?ex)))))
     @ concat (map listenerStatement
         (concat (map nodeEvents (preorder (rootNodes (prepareNodes (reduce plainEnv ?ex)))))))
     @ ''}\<newline>''"
    by (rule events_after_structure_and_scripts)
  also have "\<dots> = ''export function compile() {\<newline>''
     @ ''  const el1 = document.createElement(\"div\");\<newline>\<newline>''
     @ ''  const el2 = document.createElement(\"img\");\<newline>''
     @ ''  el1.appendChild(el2);\<newline>\<newline>''
     @ ''function onClick() {}\<newline>\<newline>''
     @ ''  el1.addEventListener(\"click\", onClick)\<newline>''
     @ ''  el2.addEventListener(\"load\", onLoad)\<newline>''
     @ ''}\<newline>''"
    by code_simp
  finally show ?thesis .
qed

subsection \<open>C5: \<open>on:\<close> without an expression is a plain attribute\<close>

text \<open>
  C5. An attribute whose name starts with \<open>on:\<close> and whose value does not start with
  \<open>{\<close> is classified, without failure, as a plain attribute with the same name and
  value; it is not an event directive.
\<close>

theorem on_without_expression_is_plain:
  "startsWith name ''on:'' \<Longrightarrow> \<not> startsWith v ''{'' \<Longrightarrow>
   compileAttribute env (NodeAttribute name v) = Some (GenericAttribute name v)"
  by (simp add: compileAttribute_def startsWith_on)

theorem on_without_expression_is_plain_witness:
  "startsWith ''on:click'' ''on:'' \<and> \<not> startsWith ''handler()'' ''{''
   \<and> compileAttribute plainEnv (NodeAttribute ''on:click'' ''handler()'')
       = Some (GenericAttribute ''on:click'' ''handler()'')"
  using on_without_expression_is_plain [of "''on:click''" "''handler()''" plainEnv]
  by (simp add: startsWith_def)

subsection \<open>C6: the default name of \<open>#ref\<close>\<close>

text \<open>
  C6. An attribute named exactly \<open>#ref\<close> is classified as a ref directive whose name is
  the trimmed value, or \<open>el\<close> when the trimmed value is empty. The name is the handle of
  the element: for a tag whose \<open>#ref\<close> attribute has value \<open>v\<close>, \<open>nameof\<close> is that name.
  The inputs \<open>#ref\<close> and \<open>#ref=""\<close> (the tokenizer gives both the empty value) and
  \<open>#ref=" "\<close>, normalized by the parser, all give the handle \<open>el\<close>.
\<close>

theorem ref_default_name:
  "compileAttribute env (NodeAttribute ''#ref'' v)
     = Some (RefAttribute (if trim v = [] then ''el'' else trim v))
   \<and> (find (\<lambda>a. attr_name a = ''#ref'') as = Some (NodeAttribute ''#ref'' v) \<longrightarrow>
        nameof (compileNode env anc (TagNode r tg as cs)) = (if trim v = [] then ''el'' else trim v))
   \<and> nameof (compileNode env anc (TagNode r tg (normalizeAttributes [(''#ref'', [])]) cs)) = ''el''
   \<and> nameof (compileNode env anc (TagNode r tg (normalizeAttributes [(''#ref'', '' '')]) cs)) = ''el''"
proof -
  have t1: "trim [] = []" and t2: "trim '' '' = []"
    by (simp_all add: trim_def trimEnd_def trimStart_def isWhiteSpace_def)
  have n1: "normalizeAttributes [(''#ref'', [])] = [NodeAttribute ''#ref'' []]"
    and n2: "normalizeAttributes [(''#ref'', '' '')] = [NodeAttribute ''#ref'' []]"
    by (simp_all add: normalizeAttributes_def isNewline_def t1 t2)
  show ?thesis
    unfolding n1 n2 nameof_compileNode_Tag
    by (simp add: compileAttribute_ref refName_def t1)
qed

theorem ref_default_name_witness:
  "find (\<lambda>a. attr_name a = ''#ref'') [NodeAttribute ''class'' ''c'', NodeAttribute ''#ref'' '' '']
     = Some (NodeAttribute ''#ref'' '' '')
   \<and> nameof (compileNode plainEnv []
        (TagNode 1 ''div'' [NodeAttribute ''class'' ''c'', NodeAttribute ''#ref'' '' ''] [])) = ''el''
   \<and> compile plainEnv [TagNode 1 ''div'' [NodeAttribute ''#ref'' []] []]
       = ''export function compile() {\<newline>  const el = document.createElement(\"div\");\<newline>\<newline>}\<newline>''"
proof -
  have f: "find (\<lambda>a. attr_name a = ''#ref'') [NodeAttribute ''class'' ''c'', NodeAttribute ''#ref'' '' '']
             = Some (NodeAttribute ''#ref'' '' '')"
    by simp
  have t: "trim '' '' = []"
    by (simp add: trim_def trimEnd_def trimStart_def isWhiteSpace_def)
  have c: "compile plainEnv [TagNode 1 ''div'' [NodeAttribute ''#ref'' []] []]
       = ''export function compile() {\<newline>  const el = document.createElement(\"div\");\<newline>\<newline>}\<newline>''"
    by code_simp
  have "nameof (compileNode plainEnv []
          (TagNode 1 ''div'' [NodeAttribute ''class'' ''c'', NodeAttribute ''#ref'' '' ''] [])) = ''el''"
    using ref_default_name [where env = plainEnv and v = "'' ''" and anc = "[]" and r = 1
        and tg = "''div''" and cs = "[]"
        and as = "[NodeAttribute ''class'' ''c'', NodeAttribute ''#ref'' '' '']"] f t
    by (simp del: compileNode.simps)
  then show ?thesis using f c by (simp del: compileNode.simps)
qed

subsection \<open>C9: what the parser does to attribute values\<close>

text \<open>
  C9. The parser's comment and the documentation of \<open>NodeAttribute.value\<close> say that white
  space and newlines are replaced by one space. The pattern of \<open>normalizeAttributes\<close>
  lists line terminators only: two consecutive spaces stay two spaces, and a tab stays a
  tab. The older \<open>normalizeAttribute\<close> collapses both to one space.
\<close>

theorem normalizeAttributes_keeps_spaces_and_tabs:
  "normalizeAttributes [(''title'', ''a  b'')] = [NodeAttribute ''title'' ''a  b'']
   \<and> normalizeAttributes [(''title'', [CHR ''a'', CHR 0x09, CHR ''b''])]
       = [NodeAttribute ''title'' [CHR ''a'', CHR 0x09, CHR ''b'']]
   \<and> normalizeAttribute ''title'' ''a  b'' = NodeAttribute ''title'' ''a b''
   \<and> normalizeAttribute ''title'' [CHR ''a'', CHR 0x09, CHR ''b''] = NodeAttribute ''title'' ''a b''"
  by code_simp

subsection \<open>C1: a parent is created before anything is appended to it\<close>

text \<open>
  C1. Take a tree as \<open>parse\<close> returns it: every \<open>refId\<close> used once, and no line
  feed in a tag or in the value of a \<open>#ref\<close> attribute. Then the output of \<open>compile\<close>
  holds one block of lines per declared node, in walk order, each line one statement of
  the node. The first line of a block is the creation statement of the node's handle.
  A node with a declared parent has exactly one tree-assembly statement, the last of
  its block, after its own creation statement; the handle it appends to is the handle
  of a node whose block stands earlier in the output and which holds the node among its
  children. A node without a parent has no tree-assembly statement.
\<close>

theorem parent_created_before_append:
  assumes "distinct (refIds nodes)" and "\<forall>nd\<in>set nodes. cleanNode nd"
  shows "let ns = preorder (rootNodes (prepareNodes (reduce env nodes))) in
     compile env nodes =
       ''export function compile() {\<newline>''
       @ concat (map (\<lambda>nd. concat (map indentLine (statements nd)) @ ''\<newline>'') ns)
       @ concat (map scriptText (preorder (scripts (prepareNodes (reduce env nodes)))))
       @ concat (map listenerStatement (concat (map nodeEvents ns)))
       @ ''}\<newline>''
     \<and> (\<forall>i<length ns. declares (nameof (ns ! i)) (hd (statements (ns ! i))))
     \<and> (\<forall>i<length ns. \<forall>parent. d_parent (ns ! i) = Some parent \<longrightarrow>
          statements (ns ! i)
            = creationStatement (ns ! i) # attributeStatements (ns ! i)
                @ [appendStatement (nameof parent) (nameof (ns ! i))]
          \<and> (\<exists>j<i. nameof (ns ! j) = nameof parent \<and> ns ! i \<in> set (d_children (ns ! j))))
     \<and> (\<forall>i<length ns. d_parent (ns ! i) = None \<longrightarrow>
          statements (ns ! i) = creationStatement (ns ! i) # attributeStatements (ns ! i))"
  unfolding Let_def
proof (intro conjI allI impI)
  show "compile env nodes =
       ''export function compile() {\<newline>''
       @ concat (map (\<lambda>nd. concat (map indentLine (statements nd)) @ ''\<newline>'')
                   (preorder (rootNodes (prepareNodes (reduce env nodes)))))
       @ concat (map scriptText (preorder (scripts (prepareNodes (reduce env nodes)))))
       @ concat (map listenerStatement
           (concat (map nodeEvents (preorder (rootNodes (prepareNodes (reduce env nodes)))))))
       @ ''}\<newline>''"
    using assms by (rule compile_lines)
next
  fix i
  show "declares (nameof (preorder (rootNodes (prepareNodes (reduce env nodes))) ! i))
          (hd (statements (preorder (rootNodes (prepareNodes (reduce env nodes))) ! i)))"
    by (simp add: statements_def declares_creation)
next
  fix i parent
  assume "d_parent (preorder (rootNodes (prepareNodes (reduce env nodes))) ! i) = Some parent"
  then show "statements (preorder (rootNodes (prepareNodes (reduce env nodes))) ! i)
      = creationStatement (preorder (rootNodes (prepareNodes (reduce env nodes))) ! i)
        # attributeStatements (preorder (rootNodes (prepareNodes (reduce env nodes))) ! i)
        @ [appendStatement (nameof parent)
             (nameof (preorder (rootNodes (prepareNodes (reduce env nodes))) ! i))]"
    by (simp add: statements_def)
next
  fix i parent
  assume "i < length (preorder (rootNodes (prepareNodes (reduce env nodes))))"
    and "d_parent (preorder (rootNodes (prepareNodes (reduce env nodes))) ! i) = Some parent"
  then show "\<exists>j<i. nameof (preorder (rootNodes (prepareNodes (reduce env nodes))) ! j) = nameof parent
          \<and> preorder (rootNodes (prepareNodes (reduce env nodes))) ! i
              \<in> set (d_children (preorder (rootNodes (prepareNodes (reduce env nodes))) ! j))"
    using assms(1) by (intro roots_parent_before_child)
next
  fix i
  assume "d_parent (preorder (rootNodes (prepareNodes (reduce env nodes))) ! i) = None"
  then show "statements (preorder (rootNodes (prepareNodes (reduce env nodes))) ! i)
      = creationStatement (preorder (rootNodes (prepareNodes (reduce env nodes))) ! i)
        # attributeStatements (preorder (rootNodes (prepareNodes (reduce env nodes))) ! i)"
    by (simp add: statements_def)
qed

theorem parent_created_before_append_witness:
  "distinct (refIds [TagNode 1 ''ul'' [NodeAttribute ''#ref'' ''list'']
                       [TagNode 2 ''li'' [] [TextNode 3 ''a'']], TagNode 4 ''p'' [] []])
   \<and> cleanNode (TagNode 1 ''ul'' [NodeAttribute ''#ref'' ''list''] [TagNode 2 ''li'' [] [TextNode 3 ''a'']])
   \<and> cleanNode (TagNode 4 ''p'' [] [])
   \<and> compile plainEnv [TagNode 1 ''ul'' [NodeAttribute ''#ref'' ''list'']
                         [TagNode 2 ''li'' [] [TextNode 3 ''a'']], TagNode 4 ''p'' [] []]
     = ''export function compile() {\<newline>''
       @ ''  const list = document.createElement(\"ul\");\<newline>\<newline>''
       @ ''  const el2 = document.createElement(\"li\");\<newline>''
       @ ''  list.appendChild(el2);\<newline>\<newline>''
       @ ''  const el3 = document.createTextNode(\"a\");\<newline>''
       @ ''  el2.appendChild(el3);\<newline>\<newline>''
       @ ''  const el4 = document.createElement(\"p\");\<newline>\<newline>''
       @ ''}\<newline>''"
proof -
  let ?ex = "[TagNode 1 ''ul'' [NodeAttribute ''#ref'' ''list'']
                [TagNode 2 ''li'' [] [TextNode 3 ''a'']], TagNode 4 ''p'' [] []]"
  have d: "distinct (refIds ?ex)" by code_simp
  have c1: "cleanNode (TagNode 1 ''ul'' [NodeAttribute ''#ref'' ''list''] [TagNode 2 ''li'' [] [TextNode 3 ''a'']])"
    by code_simp
  have c2: "cleanNode (TagNode 4 ''p'' [] [])" by code_simp
  have c: "\<forall>nd\<in>set ?ex. cleanNode nd" using c1 c2 by simp
  have "compile plainEnv ?ex =
       ''export function compile() {\<newline>''
       @ concat (map (\<lambda>nd. concat (map indentLine (statements nd)) @ ''\<newline>'')
                   (preorder (rootNodes (prepareNodes (reduce plainEnv ?ex)))))
       @ concat (map scriptText (preorder (scripts (prepareNodes (reduce plainEnv ?ex)))))
       @ concat (map listenerStatement
           (concat (map nodeEvents (preorder (rootNodes (prepareNodes (reduce plainEnv ?ex)))))))
       @ ''}\<newline>''"
    using parent_created_before_append [OF d c, of plainEnv, unfolded Let_def] by (rule conjunct1)
  also have "\<dots> = ''export function compile() {\<newline>''
       @ ''  const list = document.createElement(\"ul\");\<newline>\<newline>''
       @ ''  const el2 = document.createElement(\"li\");\<newline>''
       @ ''  list.appendChild(el2);\<newline>\<newline>''
       @ ''  const el3 = document.createTextNode(\"a\");\<newline>''
       @ ''  el2.appendChild(el3);\<newline>\<newline>''
       @ ''  const el4 = document.createElement(\"p\");\<newline>\<newline>''
       @ ''}\<newline>''"
    by code_simp
  finally show ?thesis using d c1 c2 by blast
qed

subsection \<open>C2: the type \<open>svg\<close> and namespaced creation\<close>

text \<open>
  C2, as stated, fails on text nodes: a text node below an \<open>svg\<close> tag has an ancestor
  whose tag is \<open>svg\<close>, and its declared type is \<open>text\<close>.
\<close>

theorem text_under_svg_is_not_svg:
  "map (\<lambda>d. (refId (d_node d), d_type d))
     (preorder (reduce plainEnv [TagNode 1 ''svg'' [] [TextNode 2 ''hi'']]))
     = [(1, TypeSvg), (2, TypeText)]"
  by code_simp

text \<open>
  C2, amended. The declared type of a tag node is \<open>svg\<close> if and only if its tag is
  exactly \<open>svg\<close> or the tag of one of its enclosing nodes is exactly \<open>svg\<close>, and
  \<open>element\<close> otherwise; the declared type of a text node is \<open>text\<close>, wherever it
  stands. On a tree whose \<open>refId\<close>s are used once, the declared nodes in walk order
  are the parsed nodes in document order, each with that type. The code of a declared
  node starts with the \<open>createElementNS\<close> statement for the SVG namespace exactly when
  its type is \<open>svg\<close>, with the \<open>createElement\<close> statement exactly when its type is
  \<open>element\<close>, and with the \<open>createTextNode\<close> statement of its content exactly when
  its type is \<open>text\<close>. In \<open><svg><rect/></svg>\<close> both elements are created with the
  namespace; a \<open>rect\<close> without an \<open>svg\<close> ancestor is created plainly.
\<close>

theorem svg_type_of_tag_nodes:
  "d_type (compileNode env anc (TagNode r tg as cs))
     = (if tg = ''svg'' \<or> (\<exists>a\<in>set anc. isTagNode a \<and> tag a = ''svg'') then TypeSvg
        else TypeElement)
   \<and> d_type (compileNode env anc (TextNode r t)) = TypeText
   \<and> (distinct (refIds nodes) \<longrightarrow>
        map (\<lambda>d. (d_node d, d_type d)) (preorder (reduce env nodes))
          = map (\<lambda>(anc, nd). (nd, typeBySvg anc nd)) (withAncestors [] nodes))
   \<and> startsWith (compileHtml nd)
        (''const '' @ nameof nd @ '' = document.createElementNS(\"http://www.w3.org/2000/svg\", \"''
           @ d_tag nd @ ''\");\<newline>'')
        = (d_type nd = TypeSvg)
   \<and> startsWith (compileHtml nd)
        (''const '' @ nameof nd @ '' = document.createElement(\"'' @ d_tag nd @ ''\");\<newline>'')
        = (d_type nd = TypeElement)
   \<and> startsWith (compileHtml nd)
        (''const '' @ nameof nd @ '' = document.createTextNode('' @ JSON_stringify (d_content nd)
           @ '');\<newline>'')
        = (d_type nd = TypeText)
   \<and> compile env [TagNode 1 ''svg'' [] [TagNode 2 ''rect'' [] []]]
        = ''export function compile() {\<newline>''
          @ ''  const el1 = document.createElementNS(\"http://www.w3.org/2000/svg\", \"svg\");\<newline>\<newline>''
          @ ''  const el2 = document.createElementNS(\"http://www.w3.org/2000/svg\", \"rect\");\<newline>''
          @ ''  el1.appendChild(el2);\<newline>\<newline>''
          @ ''}\<newline>''
   \<and> compile env [TagNode 1 ''rect'' [] []]
        = ''export function compile() {\<newline>''
          @ ''  const el1 = document.createElement(\"rect\");\<newline>\<newline>''
          @ ''}\<newline>''"
proof (intro conjI impI)
  show "d_type (compileNode env anc (TagNode r tg as cs))
     = (if tg = ''svg'' \<or> (\<exists>a\<in>set anc. isTagNode a \<and> tag a = ''svg'') then TypeSvg
        else TypeElement)"
    unfolding d_type_compileNode by (simp add: typeBySvg_def)
next
  show "d_type (compileNode env anc (TextNode r t)) = TypeText" by simp
next
  assume "distinct (refIds nodes)"
  then show "map (\<lambda>d. (d_node d, d_type d)) (preorder (reduce env nodes))
          = map (\<lambda>(anc, nd). (nd, typeBySvg anc nd)) (withAncestors [] nodes)"
    by (simp add: reduce_declareTree types_declareTree)
next
  show "compile env [TagNode 1 ''svg'' [] [TagNode 2 ''rect'' [] []]]
        = ''export function compile() {\<newline>''
          @ ''  const el1 = document.createElementNS(\"http://www.w3.org/2000/svg\", \"svg\");\<newline>\<newline>''
          @ ''  const el2 = document.createElementNS(\"http://www.w3.org/2000/svg\", \"rect\");\<newline>''
          @ ''  el1.appendChild(el2);\<newline>\<newline>''
          @ ''}\<newline>''"
    by code_simp
next
  show "compile env [TagNode 1 ''rect'' [] []]
        = ''export function compile() {\<newline>''
          @ ''  const el1 = document.createElement(\"rect\");\<newline>\<newline>''
          @ ''}\<newline>''"
    by code_simp
qed (rule compileHtml_svg_line_iff compileHtml_element_line_iff compileHtml_text_line_iff)+

text \<open>
  On \<open><div><svg><rect/>t</svg><rect/></div>\<close> the types are element, svg, svg, text
  and element; the text node \<open>hi\<close> of \<open><svg>hi</svg>\<close> is created with
  \<open>createTextNode\<close>.
\<close>

theorem svg_type_of_tag_nodes_witness:
  "distinct (refIds [TagNode 1 ''div'' []
      [TagNode 2 ''svg'' [] [TagNode 3 ''rect'' [] [], TextNode 4 ''t''], TagNode 5 ''rect'' [] []]])
   \<and> map d_type (preorder (reduce plainEnv [TagNode 1 ''div'' []
      [TagNode 2 ''svg'' [] [TagNode 3 ''rect'' [] [], TextNode 4 ''t''], TagNode 5 ''rect'' [] []]]))
     = [TypeElement, TypeSvg, TypeSvg, TypeText, TypeElement]
   \<and> startsWith (compileHtml (TextElementNode (TextNode 2 ''hi'') None ''hi''))
        ''const el2 = document.createTextNode(\"hi\");\<newline>''
   \<and> compile plainEnv [TagNode 1 ''svg'' [] [TextNode 2 ''hi'']]
     = ''export function compile() {\<newline>''
       @ ''  const el1 = document.createElementNS(\"http://www.w3.org/2000/svg\", \"svg\");\<newline>\<newline>''
       @ ''  const el2 = document.createTextNode(\"hi\");\<newline>''
       @ ''  el1.appendChild(el2);\<newline>\<newline>''
       @ ''}\<newline>''"
proof -
  let ?ex = "[TagNode 1 ''div'' []
      [TagNode 2 ''svg'' [] [TagNode 3 ''rect'' [] [], TextNode 4 ''t''], TagNode 5 ''rect'' [] []]]"
  let ?t = "TextElementNode (TextNode 2 ''hi'') None ''hi''"
  have d: "distinct (refIds ?ex)" by code_simp
  have e: "map (\<lambda>d. (d_node d, d_type d)) (preorder (reduce plainEnv ?ex))
          = map (\<lambda>(anc, nd). (nd, typeBySvg anc nd)) (withAncestors [] ?ex)"
    using svg_type_of_tag_nodes [where env = plainEnv and nodes = ?ex] d by blast
  have "map d_type (preorder (reduce plainEnv ?ex))
      = map snd (map (\<lambda>d. (d_node d, d_type d)) (preorder (reduce plainEnv ?ex)))"
    by (simp add: comp_def)
  also have "\<dots> = map snd (map (\<lambda>(anc, nd). (nd, typeBySvg anc nd)) (withAncestors [] ?ex))"
    by (simp only: e)
  also have "\<dots> = [TypeElement, TypeSvg, TypeSvg, TypeText, TypeElement]"
    by code_simp
  finally have m: "map d_type (preorder (reduce plainEnv ?ex))
      = [TypeElement, TypeSvg, TypeSvg, TypeText, TypeElement]" .
  have s: "startsWith (compileHtml ?t)
        (''const '' @ nameof ?t @ '' = document.createTextNode('' @ JSON_stringify (d_content ?t)
           @ '');\<newline>'')
        = (d_type ?t = TypeText)"
    using svg_type_of_tag_nodes [where nd = ?t] by blast
  have ty: "d_type ?t = TypeText" by simp
  have x: "''const '' @ nameof ?t @ '' = document.createTextNode('' @ JSON_stringify (d_content ?t)
           @ '');\<newline>'' = ''const el2 = document.createTextNode(\"hi\");\<newline>''"
    by code_simp
  have "startsWith (compileHtml ?t)
        (''const '' @ nameof ?t @ '' = document.createTextNode('' @ JSON_stringify (d_content ?t)
           @ '');\<newline>'')"
    by (simp only: s ty)
  then have t: "startsWith (compileHtml ?t) ''const el2 = document.createTextNode(\"hi\");\<newline>''"
    by (simp only: x)
  have c: "compile plainEnv [TagNode 1 ''svg'' [] [TextNode 2 ''hi'']]
     = ''export function compile() {\<newline>''
       @ ''  const el1 = document.createElementNS(\"http://www.w3.org/2000/svg\", \"svg\");\<newline>\<newline>''
       @ ''  const el2 = document.createTextNode(\"hi\");\<newline>''
       @ ''  el1.appendChild(el2);\<newline>\<newline>''
       @ ''}\<newline>''"
    by code_simp
  show ?thesis using d m t c by blast
qed

subsection \<open>C3: the statements of plain attributes\<close>

text \<open>
  C3. The code of a tag node is its creation statement, then one statement for each of
  its attributes that classifies as a plain attribute, in the order of the attributes,
  then the append to its parent if it has one. The statement of a plain attribute
  assigns the property for \<open>width\<close> and \<open>height\<close>, assigns \<open>className\<close> for \<open>class\<close>
  (and is not \<open>setAttribute("class", ...)\<close>), assigns \<open>style.cssText\<close> for \<open>style\<close>,
  and calls \<open>setAttribute\<close> for every other name. In the output each statement is a line
  of its own (for a node without a line feed in its tag, its handle and its parent's
  handle). The node meant is the declared node of the tag as \<open>reduce\<close> builds it.
\<close>

theorem plain_attribute_statements:
  "compileHtml (declareTree env anc parent (TagNode r tg as cs)) =
     creationStatement (declareTree env anc parent (TagNode r tg as cs)) @ ''\<newline>''
     @ concat (map (\<lambda>a. attributeStatement (handleOf (TagNode r tg as cs)) (attr_name a) (attr_value a)
                          @ ''\<newline>'')
                 (filter isPlainAttribute as))
     @ (case parent of None \<Rightarrow> []
        | Some p \<Rightarrow> appendStatement (nameof p) (handleOf (TagNode r tg as cs)) @ ''\<newline>'')
     @ ''\<newline>''
   \<and> (cleanNode (TagNode r tg as cs) \<and> cleanParent parent \<longrightarrow>
        nodeCode (declareTree env anc parent (TagNode r tg as cs)) =
          indentLine (creationStatement (declareTree env anc parent (TagNode r tg as cs)))
          @ concat (map (\<lambda>a. indentLine (attributeStatement (handleOf (TagNode r tg as cs))
                                 (attr_name a) (attr_value a)))
                      (filter isPlainAttribute as))
          @ (case parent of None \<Rightarrow> []
             | Some p \<Rightarrow> indentLine (appendStatement (nameof p) (handleOf (TagNode r tg as cs))))
          @ ''\<newline>'')
   \<and> attributeStatement h ''width'' v = h @ ''.width = '' @ JSON_stringify v @ '';''
   \<and> attributeStatement h ''height'' v = h @ ''.height = '' @ JSON_stringify v @ '';''
   \<and> attributeStatement h ''class'' v = h @ ''.className = '' @ JSON_stringify v @ '';''
   \<and> attributeStatement h ''class'' v
        \<noteq> h @ ''.setAttribute('' @ JSON_stringify ''class'' @ '', '' @ JSON_stringify v @ '');''
   \<and> attributeStatement h ''style'' v = h @ ''.style.cssText = '' @ JSON_stringify v @ '';''
   \<and> (name \<notin> set [''width'', ''height'', ''class'', ''style''] \<longrightarrow>
        attributeStatement h name v
          = h @ ''.setAttribute('' @ JSON_stringify name @ '', '' @ JSON_stringify v @ '');'')
   \<and> (distinct (refIds nodes) \<longrightarrow> reduce env nodes = map (declareTree env [] None) nodes)"
proof (intro conjI impI)
  show "compileHtml (declareTree env anc parent (TagNode r tg as cs)) =
     creationStatement (declareTree env anc parent (TagNode r tg as cs)) @ ''\<newline>''
     @ concat (map (\<lambda>a. attributeStatement (handleOf (TagNode r tg as cs)) (attr_name a) (attr_value a)
                          @ ''\<newline>'')
                 (filter isPlainAttribute as))
     @ (case parent of None \<Rightarrow> []
        | Some p \<Rightarrow> appendStatement (nameof p) (handleOf (TagNode r tg as cs)) @ ''\<newline>'')
     @ ''\<newline>''"
    unfolding compileHtml_statements statements_declareTree_Tag
    by (simp add: comp_def split: option.split del: declareTree.simps handleOf.simps)
next
  assume c: "cleanNode (TagNode r tg as cs) \<and> cleanParent parent"
  have "cleanDeclared (declareTree env anc parent (TagNode r tg as cs))"
    using cleanDeclared_declareTree [of "TagNode r tg as cs" parent env anc] c
    unfolding preorder_declareTree_Tag by simp
  then have nc: "nodeCode (declareTree env anc parent (TagNode r tg as cs))
      = concat (map indentLine (statements (declareTree env anc parent (TagNode r tg as cs))))
        @ ''\<newline>''"
    by (rule nodeCode_lines)
  show "nodeCode (declareTree env anc parent (TagNode r tg as cs)) =
          indentLine (creationStatement (declareTree env anc parent (TagNode r tg as cs)))
          @ concat (map (\<lambda>a. indentLine (attributeStatement (handleOf (TagNode r tg as cs))
                                 (attr_name a) (attr_value a)))
                      (filter isPlainAttribute as))
          @ (case parent of None \<Rightarrow> []
             | Some p \<Rightarrow> indentLine (appendStatement (nameof p) (handleOf (TagNode r tg as cs))))
          @ ''\<newline>''"
    unfolding nc statements_declareTree_Tag
    by (simp add: comp_def split: option.split del: declareTree.simps handleOf.simps)
next
  show "attributeStatement h ''class'' v
        \<noteq> h @ ''.setAttribute('' @ JSON_stringify ''class'' @ '', '' @ JSON_stringify v @ '');''"
    by (simp add: attributeStatement_def)
qed (simp_all add: attributeStatement_def reduce_declareTree)

theorem plain_attribute_statements_witness:
  "cleanNode (TagNode 1 ''div''
      [NodeAttribute ''class'' ''c'', NodeAttribute ''width'' ''10'', NodeAttribute ''on:click'' ''{h}'',
       NodeAttribute ''style'' ''color: red'', NodeAttribute ''title'' ''t''] [])
   \<and> cleanParent None
   \<and> ''title'' \<notin> set [''width'', ''height'', ''class'', ''style'']
   \<and> nodeCode (declareTree plainEnv [] None (TagNode 1 ''div''
      [NodeAttribute ''class'' ''c'', NodeAttribute ''width'' ''10'', NodeAttribute ''on:click'' ''{h}'',
       NodeAttribute ''style'' ''color: red'', NodeAttribute ''title'' ''t''] []))
     = ''  const el1 = document.createElement(\"div\");\<newline>''
       @ ''  el1.className = \"c\";\<newline>''
       @ ''  el1.width = \"10\";\<newline>''
       @ ''  el1.style.cssText = \"color: red\";\<newline>''
       @ ''  el1.setAttribute(\"title\", \"t\");\<newline>\<newline>''
   \<and> compile plainEnv [TagNode 1 ''div'' [NodeAttribute ''class'' ''c'']
                          [TagNode 2 ''span'' [] [TextNode 3 ''hi'']]]
     = ''export function compile() {\<newline>''
       @ ''  const el1 = document.createElement(\"div\");\<newline>''
       @ ''  el1.className = \"c\";\<newline>\<newline>''
       @ ''  const el2 = document.createElement(\"span\");\<newline>''
       @ ''  el1.appendChild(el2);\<newline>\<newline>''
       @ ''  const el3 = document.createTextNode(\"hi\");\<newline>''
       @ ''  el2.appendChild(el3);\<newline>\<newline>''
       @ ''}\<newline>''"
proof -
  let ?as = "[NodeAttribute ''class'' ''c'', NodeAttribute ''width'' ''10'', NodeAttribute ''on:click'' ''{h}'',
       NodeAttribute ''style'' ''color: red'', NodeAttribute ''title'' ''t'']"
  let ?N = "TagNode 1 ''div'' ?as []"
  have c: "cleanNode ?N" by code_simp
  have p: "cleanParent None" by (simp add: cleanParent_def)
  have t: "''title'' \<notin> set [''width'', ''height'', ''class'', ''style'']" by simp
  have "nodeCode (declareTree plainEnv [] None ?N) =
          indentLine (creationStatement (declareTree plainEnv [] None ?N))
          @ concat (map (\<lambda>a. indentLine (attributeStatement (handleOf ?N) (attr_name a) (attr_value a)))
                      (filter isPlainAttribute ?as))
          @ (case None of None \<Rightarrow> []
             | Some p \<Rightarrow> indentLine (appendStatement (nameof p) (handleOf ?N)))
          @ ''\<newline>''"
    using plain_attribute_statements [where env = plainEnv and anc = "[]" and parent = None
        and r = 1 and tg = "''div''" and as = ?as and cs = "[]"] c p
    by blast
  also have "\<dots> = ''  const el1 = document.createElement(\"div\");\<newline>''
       @ ''  el1.className = \"c\";\<newline>''
       @ ''  el1.width = \"10\";\<newline>''
       @ ''  el1.style.cssText = \"color: red\";\<newline>''
       @ ''  el1.setAttribute(\"title\", \"t\");\<newline>\<newline>''"
    by code_simp
  finally have n: "nodeCode (declareTree plainEnv [] None ?N)
     = ''  const el1 = document.createElement(\"div\");\<newline>''
       @ ''  el1.className = \"c\";\<newline>''
       @ ''  el1.width = \"10\";\<newline>''
       @ ''  el1.style.cssText = \"color: red\";\<newline>''
       @ ''  el1.setAttribute(\"title\", \"t\");\<newline>\<newline>''" .
  have e: "compile plainEnv [TagNode 1 ''div'' [NodeAttribute ''class'' ''c'']
                          [TagNode 2 ''span'' [] [TextNode 3 ''hi'']]]
     = ''export function compile() {\<newline>''
       @ ''  const el1 = document.createElement(\"div\");\<newline>''
       @ ''  el1.className = \"c\";\<newline>\<newline>''
       @ ''  const el2 = document.createElement(\"span\");\<newline>''
       @ ''  el1.appendChild(el2);\<newline>\<newline>''
       @ ''  const el3 = document.createTextNode(\"hi\");\<newline>''
       @ ''  el2.appendChild(el3);\<newline>\<newline>''
       @ ''}\<newline>''"
    by code_simp
  show ?thesis using c p t n e by blast
qed

subsection \<open>C8: what is skipped at the root\<close>

text \<open>
  C8, as stated, fails: the children of a root-level \<open>template\<close> are not emitted.
\<close>

theorem template_children_are_not_emitted:
  "compile plainEnv [TagNode 1 ''template'' [] [TagNode 2 ''div'' [] []]]
     = ''export function compile() {\<newline>}\<newline>''"
  by code_simp

text \<open>
  C8, amended. The subtrees of root-level \<open>script\<close>, \<open>style\<close> and \<open>template\<close> nodes
  are all skipped: on a tree whose \<open>refId\<close>s are used once, the roots that the
  structural walk starts from are the declared nodes of the root nodes that are none of
  the three, the nodes it visits are the nodes of the subtrees of those roots, in
  document order, and the output holds the code of these nodes and of no other. The walk
  of the scripts starts from the declared nodes of the root \<open>script\<close> tags. The
  children of a root-level \<open>template\<close> are not emitted:
  \<open><template><div></div></template>\<close> compiles to the empty wrapper.
\<close>

theorem segregated_roots_are_skipped:
  "(distinct (refIds nodes) \<longrightarrow>
      rootNodes (prepareNodes (reduce env nodes))
        = map (declareTree env [] None)
            (filter (\<lambda>nd. \<not> (isTagNode nd \<and> tag nd \<in> set [''template'', ''script'', ''style''])) nodes)
      \<and> scripts (prepareNodes (reduce env nodes))
        = map (declareTree env [] None) (filter (\<lambda>nd. isTagNode nd \<and> tag nd = ''script'') nodes)
      \<and> map d_node (preorder (rootNodes (prepareNodes (reduce env nodes))))
        = preorderNodes
            (filter (\<lambda>nd. \<not> (isTagNode nd \<and> tag nd \<in> set [''template'', ''script'', ''style''])) nodes)
      \<and> compile env nodes =
          ''export function compile() {\<newline>''
          @ concat (map nodeCode (preorder (map (declareTree env [] None)
              (filter (\<lambda>nd. \<not> (isTagNode nd \<and> tag nd \<in> set [''template'', ''script'', ''style'']))
                 nodes))))
          @ concat (map scriptText (preorder (map (declareTree env [] None)
              (filter (\<lambda>nd. isTagNode nd \<and> tag nd = ''script'') nodes))))
          @ concat (map listenerStatement (concat (map nodeEvents
              (preorder (map (declareTree env [] None)
                 (filter (\<lambda>nd. \<not> (isTagNode nd \<and> tag nd \<in> set [''template'', ''script'', ''style'']))
                    nodes))))))
          @ ''}\<newline>'')
   \<and> compile env [TagNode 1 ''template'' [] [TagNode 2 ''div'' [] []]]
       = ''export function compile() {\<newline>}\<newline>''
   \<and> compile env [TagNode 1 ''style'' [] [TagNode 2 ''div'' [] []]]
       = ''export function compile() {\<newline>}\<newline>''
   \<and> compile env [TagNode 1 ''script'' [] [TagNode 2 ''div'' [] []]]
       = ''export function compile() {\<newline>}\<newline>''"
proof (intro conjI impI)
  assume d: "distinct (refIds nodes)"
  show r: "rootNodes (prepareNodes (reduce env nodes))
       = map (declareTree env [] None)
           (filter (\<lambda>nd. \<not> (isTagNode nd \<and> tag nd \<in> set [''template'', ''script'', ''style''])) nodes)"
    unfolding reduce_declareTree [OF d] rootNodes_declared segregatedRoot_def by (rule refl)
  show "scripts (prepareNodes (reduce env nodes))
       = map (declareTree env [] None) (filter (\<lambda>nd. isTagNode nd \<and> tag nd = ''script'') nodes)"
    unfolding reduce_declareTree [OF d] scripts_declared scriptRoot_def by (rule refl)
  show "map d_node (preorder (rootNodes (prepareNodes (reduce env nodes))))
        = preorderNodes
            (filter (\<lambda>nd. \<not> (isTagNode nd \<and> tag nd \<in> set [''template'', ''script'', ''style''])) nodes)"
    unfolding r nodes_declareTree snd_withAncestors by (rule refl)
  show "compile env nodes =
          ''export function compile() {\<newline>''
          @ concat (map nodeCode (preorder (map (declareTree env [] None)
              (filter (\<lambda>nd. \<not> (isTagNode nd \<and> tag nd \<in> set [''template'', ''script'', ''style'']))
                 nodes))))
          @ concat (map scriptText (preorder (map (declareTree env [] None)
              (filter (\<lambda>nd. isTagNode nd \<and> tag nd = ''script'') nodes))))
          @ concat (map listenerStatement (concat (map nodeEvents
              (preorder (map (declareTree env [] None)
                 (filter (\<lambda>nd. \<not> (isTagNode nd \<and> tag nd \<in> set [''template'', ''script'', ''style'']))
                    nodes))))))
          @ ''}\<newline>''"
    using compile_declared [OF d, of env] unfolding segregatedRoot_def scriptRoot_def .
next
  show "compile env [TagNode 1 ''template'' [] [TagNode 2 ''div'' [] []]]
       = ''export function compile() {\<newline>}\<newline>''"
    by code_simp
next
  show "compile env [TagNode 1 ''style'' [] [TagNode 2 ''div'' [] []]]
       = ''export function compile() {\<newline>}\<newline>''"
    by code_simp
next
  show "compile env [TagNode 1 ''script'' [] [TagNode 2 ''div'' [] []]]
       = ''export function compile() {\<newline>}\<newline>''"
    by code_simp
qed

text \<open>
  In \<open><template><div></div></template><p></p><style>p{}</style>\<close> the walk visits the
  \<open>p\<close> alone.
\<close>

theorem segregated_roots_are_skipped_witness:
  "distinct (refIds [TagNode 1 ''template'' [] [TagNode 2 ''div'' [] []], TagNode 3 ''p'' [] [],
                     TagNode 4 ''style'' [] [TextNode 5 ''p{}'']])
   \<and> map d_node (preorder (rootNodes (prepareNodes (reduce plainEnv
        [TagNode 1 ''template'' [] [TagNode 2 ''div'' [] []], TagNode 3 ''p'' [] [],
         TagNode 4 ''style'' [] [TextNode 5 ''p{}'']]))))
     = [TagNode 3 ''p'' [] []]
   \<and> compile plainEnv [TagNode 1 ''template'' [] [TagNode 2 ''div'' [] []], TagNode 3 ''p'' [] [],
                        TagNode 4 ''style'' [] [TextNode 5 ''p{}'']]
     = ''export function compile() {\<newline>  const el3 = document.createElement(\"p\");\<newline>\<newline>}\<newline>''"
proof -
  let ?ex = "[TagNode 1 ''template'' [] [TagNode 2 ''div'' [] []], TagNode 3 ''p'' [] [],
              TagNode 4 ''style'' [] [TextNode 5 ''p{}'']]"
  let ?keep = "\<lambda>nd. \<not> (isTagNode nd \<and> tag nd \<in> set [''template'', ''script'', ''style''])"
  have d: "distinct (refIds ?ex)" by code_simp
  have "map d_node (preorder (rootNodes (prepareNodes (reduce plainEnv ?ex))))
      = preorderNodes (filter ?keep ?ex)"
    using segregated_roots_are_skipped [of ?ex plainEnv] d by blast
  also have "\<dots> = [TagNode 3 ''p'' [] []]" by code_simp
  finally have n: "map d_node (preorder (rootNodes (prepareNodes (reduce plainEnv ?ex))))
      = [TagNode 3 ''p'' [] []]" .
  have "compile plainEnv ?ex =
          ''export function compile() {\<newline>''
          @ concat (map nodeCode (preorder (map (declareTree plainEnv [] None) (filter ?keep ?ex))))
          @ concat (map scriptText (preorder (map (declareTree plainEnv [] None)
              (filter (\<lambda>nd. isTagNode nd \<and> tag nd = ''script'') ?ex))))
          @ concat (map listenerStatement (concat (map nodeEvents
              (preorder (map (declareTree plainEnv [] None) (filter ?keep ?ex))))))
          @ ''}\<newline>''"
    using segregated_roots_are_skipped [of ?ex plainEnv] d by blast
  also have "\<dots> = ''export function compile() {\<newline>  const el3 = document.createElement(\"p\");\<newline>\<newline>}\<newline>''"
    by code_simp
  finally show ?thesis using d n by blast
qed

subsection \<open>C10: event modifiers do not reach the output\<close>

text \<open>
  C10, as stated, fails on documents in which a tag repeats an attribute name. The
  documents \<open><button on:click={a} on:click.once={b}>\<close> and
  \<open><button on:click={a} on:click={b}>\<close> differ in a modifier segment only. The object of
  attributes of the second holds one \<open>on:click\<close>, so the second registers one listener
  and the first two; that is so whichever of the two values the object keeps.
\<close>

theorem repeated_event_name_is_dropped:
  "compile plainEnv [TagNode 1 ''button''
       (normalizeAttributes (keyOrder (attribs [(''on:click'', ''{a}''), (''on:click.once'', ''{b}'')]))) []]
     = ''export function compile() {\<newline>''
       @ ''  const el1 = document.createElement(\"button\");\<newline>\<newline>''
       @ ''  el1.addEventListener(\"click\", a)\<newline>''
       @ ''  el1.addEventListener(\"click\", b)\<newline>''
       @ ''}\<newline>''
   \<and> compile plainEnv [TagNode 1 ''button''
       (normalizeAttributes (keyOrder (attribs [(''on:click'', ''{a}''), (''on:click'', ''{b}'')]))) []]
     = ''export function compile() {\<newline>''
       @ ''  const el1 = document.createElement(\"button\");\<newline>\<newline>''
       @ ''  el1.addEventListener(\"click\", a)\<newline>''
       @ ''}\<newline>''
   \<and> compile plainEnv [TagNode 1 ''button'' [NodeAttribute ''on:click'' ''{b}''] []]
     = ''export function compile() {\<newline>''
       @ ''  const el1 = document.createElement(\"button\");\<newline>\<newline>''
       @ ''  el1.addEventListener(\"click\", b)\<newline>''
       @ ''}\<newline>''"
  by code_simp

text \<open>
  C10, amended. Take two documents in which no tag repeats an attribute name and which
  are equal once the modifier segments are removed from the names of their event
  attributes (names that start with \<open>on:\<close>, with a value that starts with \<open>{\<close>:
  everything from the first \<open>.\<close> or \<open>|\<close> after \<open>on:\<close>). Tag by tag, the attributes
  that the parser makes of the written ones are then equal once the modifier segments are
  removed; and two parsed trees (\<open>refId\<close>s used once) that are equal once the modifier
  segments are removed compile to the same output. The registration that \<open>compile\<close>
  appends for an event does not depend on the modifiers of the directive. Of two
  attributes of a tag with the same name the object of attributes keeps the first, so
  that \<open><button on:click={a} on:click.once={b}>\<close> registers two listeners and
  \<open><button on:click={a} on:click={b}>\<close> one.
\<close>

theorem modifiers_do_not_change_output:
  "(distinct (refIds nodes) \<and> map withoutModifiers nodes = map withoutModifiers nodes'
      \<longrightarrow> compile env nodes = compile env nodes')
   \<and> (distinct (map fst ws) \<and> distinct (map fst ws')
       \<and> map dropModifiers (normalizeAttributes ws) = map dropModifiers (normalizeAttributes ws')
      \<longrightarrow> map dropModifiers (normalizeAttributes (keyOrder (attribs ws)))
           = map dropModifiers (normalizeAttributes (keyOrder (attribs ws'))))
   \<and> bindCode (nd, EventAttribute e ms v) code = bindCode (nd, EventAttribute e [] v) code
   \<and> normalizeAttributes (keyOrder (attribs [(''on:click'', ''{a}''), (''on:click.once'', ''{b}'')]))
       = [NodeAttribute ''on:click'' ''{a}'', NodeAttribute ''on:click.once'' ''{b}'']
   \<and> normalizeAttributes (keyOrder (attribs [(''on:click'', ''{a}''), (''on:click'', ''{b}'')]))
       = [NodeAttribute ''on:click'' ''{a}'']
   \<and> map (\<lambda>(nd, ev). (eventName ev, variableName ev))
         (concat (map nodeEvents (preorder (reduce env [TagNode 1 ''button''
            [NodeAttribute ''on:click'' ''{a}'', NodeAttribute ''on:click.once'' ''{b}''] []]))))
       = [(''click'', trim (trimAny env ''{a}'' [''{'', ''}''])),
          (''click'', trim (trimAny env ''{b}'' [''{'', ''}'']))]
   \<and> map (\<lambda>(nd, ev). (eventName ev, variableName ev))
         (concat (map nodeEvents (preorder (reduce env [TagNode 1 ''button''
            [NodeAttribute ''on:click'' ''{a}''] []]))))
       = [(''click'', trim (trimAny env ''{a}'' [''{'', ''}'']))]"
proof (intro conjI impI)
  assume a: "distinct (refIds nodes) \<and> map withoutModifiers nodes = map withoutModifiers nodes'"
  then have d: "distinct (refIds nodes)" and m: "map withoutModifiers nodes = map withoutModifiers nodes'"
    by simp_all
  have "refIds nodes' = refIds nodes"
    using refIds_withoutModifiers [of nodes] refIds_withoutModifiers [of nodes'] m by simp
  then have d': "distinct (refIds nodes')" using d by simp
  show "compile env nodes = compile env nodes'"
    using compile_withoutModifiers [OF d, of env] compile_withoutModifiers [OF d', of env] m by simp
next
  assume "distinct (map fst ws) \<and> distinct (map fst ws')
       \<and> map dropModifiers (normalizeAttributes ws) = map dropModifiers (normalizeAttributes ws')"
  then show "map dropModifiers (normalizeAttributes (keyOrder (attribs ws)))
           = map dropModifiers (normalizeAttributes (keyOrder (attribs ws')))"
    using parsed_attributes_modifiers [of ws ws'] by blast
next
  show "bindCode (nd, EventAttribute e ms v) code = bindCode (nd, EventAttribute e [] v) code"
    by (simp add: bindCode_def)
next
  show "normalizeAttributes (keyOrder (attribs [(''on:click'', ''{a}''), (''on:click.once'', ''{b}'')]))
       = [NodeAttribute ''on:click'' ''{a}'', NodeAttribute ''on:click.once'' ''{b}'']"
    by code_simp
next
  show "normalizeAttributes (keyOrder (attribs [(''on:click'', ''{a}''), (''on:click'', ''{b}'')]))
       = [NodeAttribute ''on:click'' ''{a}'']"
    by code_simp
next
  show "map (\<lambda>(nd, ev). (eventName ev, variableName ev))
         (concat (map nodeEvents (preorder (reduce env [TagNode 1 ''button''
            [NodeAttribute ''on:click'' ''{a}'', NodeAttribute ''on:click.once'' ''{b}''] []]))))
       = [(''click'', trim (trimAny env ''{a}'' [''{'', ''}''])),
          (''click'', trim (trimAny env ''{b}'' [''{'', ''}'']))]"
    by code_simp
next
  show "map (\<lambda>(nd, ev). (eventName ev, variableName ev))
         (concat (map nodeEvents (preorder (reduce env [TagNode 1 ''button''
            [NodeAttribute ''on:click'' ''{a}''] []]))))
       = [(''click'', trim (trimAny env ''{a}'' [''{'', ''}'']))]"
    by code_simp
qed

text \<open>
  \<open><button on:click={h}>\<close> and \<open><button on:click.once.passive={h}>\<close> compile to the
  same function, with one registration for \<open>click\<close>.
\<close>

theorem modifiers_do_not_change_output_witness:
  "distinct (refIds [TagNode 1 ''button'' [NodeAttribute ''on:click'' ''{h}''] []])
   \<and> map withoutModifiers [TagNode 1 ''button'' [NodeAttribute ''on:click'' ''{h}''] []]
       = map withoutModifiers [TagNode 1 ''button'' [NodeAttribute ''on:click.once.passive'' ''{h}''] []]
   \<and> compile plainEnv [TagNode 1 ''button'' [NodeAttribute ''on:click'' ''{h}''] []]
       = compile plainEnv [TagNode 1 ''button'' [NodeAttribute ''on:click.once.passive'' ''{h}''] []]
   \<and> compile plainEnv [TagNode 1 ''button'' [NodeAttribute ''on:click.once.passive'' ''{h}''] []]
       = ''export function compile() {\<newline>''
         @ ''  const el1 = document.createElement(\"button\");\<newline>\<newline>''
         @ ''  el1.addEventListener(\"click\", h)\<newline>''
         @ ''}\<newline>''
   \<and> compileAttribute plainEnv (NodeAttribute ''on:click.once.passive'' ''{h}'')
       = Some (EventAttribute ''click'' [''once'', ''passive''] ''h'')
   \<and> distinct (map fst [(''on:click'', ''{h}''), (''class'', ''c'')])
   \<and> distinct (map fst [(''on:click.once.passive'', ''{h}''), (''class'', ''c'')])
   \<and> map dropModifiers (normalizeAttributes [(''on:click'', ''{h}''), (''class'', ''c'')])
       = map dropModifiers (normalizeAttributes [(''on:click.once.passive'', ''{h}''), (''class'', ''c'')])
   \<and> map dropModifiers (normalizeAttributes (keyOrder (attribs
         [(''on:click.once.passive'', ''{h}''), (''class'', ''c'')])))
       = [NodeAttribute ''on:click'' ''{h}'', NodeAttribute ''class'' ''c'']"
proof -
  let ?a = "[TagNode 1 ''button'' [NodeAttribute ''on:click'' ''{h}''] []]"
  let ?b = "[TagNode 1 ''button'' [NodeAttribute ''on:click.once.passive'' ''{h}''] []]"
  let ?ws = "[(''on:click'', ''{h}''), (''class'', ''c'')]"
  let ?ws' = "[(''on:click.once.passive'', ''{h}''), (''class'', ''c'')]"
  have d: "distinct (refIds ?a)" by code_simp
  have m: "map withoutModifiers ?a = map withoutModifiers ?b" by code_simp
  have e: "compile plainEnv ?a = compile plainEnv ?b"
    using modifiers_do_not_change_output [of ?a ?b plainEnv] d m by blast
  have v: "compile plainEnv ?b
       = ''export function compile() {\<newline>''
         @ ''  const el1 = document.createElement(\"button\");\<newline>\<newline>''
         @ ''  el1.addEventListener(\"click\", h)\<newline>''
         @ ''}\<newline>''"
    by code_simp
  have c: "compileAttribute plainEnv (NodeAttribute ''on:click.once.passive'' ''{h}'')
       = Some (EventAttribute ''click'' [''once'', ''passive''] ''h'')"
    by code_simp
  have w1: "distinct (map fst ?ws)" by code_simp
  have w2: "distinct (map fst ?ws')" by code_simp
  have w3: "map dropModifiers (normalizeAttributes ?ws) = map dropModifiers (normalizeAttributes ?ws')"
    by code_simp
  have "map dropModifiers (normalizeAttributes (keyOrder (attribs ?ws')))
      = map dropModifiers (normalizeAttributes (keyOrder (attribs ?ws)))"
    using modifiers_do_not_change_output [where ws = ?ws and ws' = ?ws'] w1 w2 w3 by simp
  also have "\<dots> = [NodeAttribute ''on:click'' ''{h}'', NodeAttribute ''class'' ''c'']"
    by code_simp
  finally have w4: "map dropModifiers (normalizeAttributes (keyOrder (attribs ?ws')))
      = [NodeAttribute ''on:click'' ''{h}'', NodeAttribute ''class'' ''c'']" .
  show ?thesis using d m e v c w1 w2 w3 w4 by blast
qed

subsection \<open>C7: a document without an exportable root\<close>

text \<open>
  C7, as stated, fails on \<open>compile\<close>: the document \<open><style>body{}</style>\<close> compiles to
  the function wrapper, not to the empty string.
\<close>

theorem style_only_is_not_empty:
  "compile plainEnv [TagNode 1 ''style'' [] [TextNode 2 ''body{}'']]
     = ''export function compile() {\<newline>}\<newline>''"
  by code_simp

text \<open>
  C7, amended. \<open>compile\<close> never returns the empty string. For a document whose roots
  are all \<open>template\<close>, \<open>script\<close> or \<open>style\<close> tags (\<open>refId\<close>s used once) it does not
  fail and returns the function wrapper around the script text alone: the header, the
  trimmed text of every text node below a root script, the closing brace; for
  \<open><style>body{}</style>\<close> that is the empty wrapper. The older \<open>compile\<close> is the one
  that returns the empty string for such a document.
\<close>

theorem no_exportable_root:
  "compile env nodes \<noteq> []
   \<and> (distinct (refIds nodes)
       \<and> (\<forall>nd\<in>set nodes. isTagNode nd \<and> tag nd \<in> set [''template'', ''script'', ''style'']) \<longrightarrow>
        compile env nodes =
          ''export function compile() {\<newline>''
          @ concat (map scriptText (preorder (map (declareTree env [] None)
                      (filter (\<lambda>nd. isTagNode nd \<and> tag nd = ''script'') nodes))))
          @ ''}\<newline>'')
   \<and> compile env [TagNode 1 ''style'' [] [TextNode 2 ''body{}'']]
        = ''export function compile() {\<newline>}\<newline>''
   \<and> ((\<forall>nd\<in>set nodes. isTagNode nd \<and> tag nd \<in> set [''template'', ''script'', ''style'']) \<longrightarrow>
        legacyCompile env nodes = Inr [])
   \<and> legacyCompile env [TagNode 2 ''style'' [] [TextNode 3 ''body{}'']] = Inr []"
proof (intro conjI impI)
  show "compile env nodes \<noteq> []" by (rule compile_nonempty)
next
  assume "distinct (refIds nodes)
       \<and> (\<forall>nd\<in>set nodes. isTagNode nd \<and> tag nd \<in> set [''template'', ''script'', ''style''])"
  then show "compile env nodes =
          ''export function compile() {\<newline>''
          @ concat (map scriptText (preorder (map (declareTree env [] None)
                      (filter (\<lambda>nd. isTagNode nd \<and> tag nd = ''script'') nodes))))
          @ ''}\<newline>''"
    using compile_only_segregated [of nodes env]
    unfolding segregatedRoot_def scriptRoot_def by blast
next
  show "compile env [TagNode 1 ''style'' [] [TextNode 2 ''body{}'']]
        = ''export function compile() {\<newline>}\<newline>''"
    by code_simp
next
  assume "\<forall>nd\<in>set nodes. isTagNode nd \<and> tag nd \<in> set [''template'', ''script'', ''style'']"
  then show "legacyCompile env nodes = Inr []"
    using legacyCompile_nothing_left [of nodes env] unfolding segregatedRoot_def by blast
next
  show "legacyCompile env [TagNode 2 ''style'' [] [TextNode 3 ''body{}'']] = Inr []"
    by code_simp
qed

theorem no_exportable_root_witness:
  "distinct (refIds [TagNode 1 ''style'' [] [TextNode 2 ''body{}''],
                     TagNode 3 ''script'' [] [TextNode 4 '' let n = 0 '']])
   \<and> compile plainEnv [TagNode 1 ''style'' [] [TextNode 2 ''body{}''],
                        TagNode 3 ''script'' [] [TextNode 4 '' let n = 0 '']]
       = ''export function compile() {\<newline>let n = 0\<newline>\<newline>}\<newline>''
   \<and> legacyCompile plainEnv [TagNode 1 ''style'' [] [TextNode 2 ''body{}''],
                        TagNode 3 ''script'' [] [TextNode 4 '' let n = 0 '']] = Inr []"
proof -
  let ?ex = "[TagNode 1 ''style'' [] [TextNode 2 ''body{}''],
              TagNode 3 ''script'' [] [TextNode 4 '' let n = 0 '']]"
  have d: "distinct (refIds ?ex)" by code_simp
  have a: "\<forall>nd\<in>set ?ex. isTagNode nd \<and> tag nd \<in> set [''template'', ''script'', ''style'']"
    by simp
  note th = no_exportable_root [of plainEnv ?ex]
  have "compile plainEnv ?ex =
          ''export function compile() {\<newline>''
          @ concat (map scriptText (preorder (map (declareTree plainEnv [] None)
                      (filter (\<lambda>nd. isTagNode nd \<and> tag nd = ''script'') ?ex))))
          @ ''}\<newline>''"
    using th d a by blast
  also have "\<dots> = ''export function compile() {\<newline>let n = 0\<newline>\<newline>}\<newline>''"
    by code_simp
  finally have c: "compile plainEnv ?ex = ''export function compile() {\<newline>let n = 0\<newline>\<newline>}\<newline>''" .
  have l: "legacyCompile plainEnv ?ex = Inr []" using th a by blast
  show ?thesis using d c l by blast
qed

section \<open>Further properties\<close>

subsection \<open>What \<open>normalizeAttributes\<close> does guarantee\<close>

text \<open>
  X1. Every attribute value that \<open>normalizeAttributes\<close> returns is free of the line
  terminators of its pattern, and, when it is not empty, neither begins nor ends with
  white space.
\<close>

theorem normalizeAttributes_values:
  "\<forall>a\<in>set (normalizeAttributes attrs).
     (\<forall>c\<in>set (attr_value a). \<not> isNewline c)
     \<and> (attr_value a \<noteq> [] \<longrightarrow>
          \<not> isWhiteSpace (hd (attr_value a)) \<and> \<not> isWhiteSpace (last (attr_value a)))"
proof
  fix a
  assume "a \<in> set (normalizeAttributes attrs)"
  then obtain name v where a: "a = NodeAttribute name (trim (replaceRuns isNewline '' '' v))"
    by (auto simp: normalizeAttributes_def)
  have "\<not> isNewline c" if "c \<in> set (trim (replaceRuns isNewline '' '' v))" for c
  proof
    assume "isNewline c"
    then have "c \<notin> set (replaceRuns isNewline '' '' v)"
      by (rule replaceRuns_removes) (simp add: isNewline_def)
    then show False using that set_trim [of "replaceRuns isNewline '' '' v"] by blast
  qed
  then show "(\<forall>c\<in>set (attr_value a). \<not> isNewline c)
     \<and> (attr_value a \<noteq> [] \<longrightarrow>
          \<not> isWhiteSpace (hd (attr_value a)) \<and> \<not> isWhiteSpace (last (attr_value a)))"
    using a trim_hd [of "replaceRuns isNewline '' '' v"] trim_last [of "replaceRuns isNewline '' '' v"]
    by simp
qed

theorem normalizeAttributes_values_witness:
  "normalizeAttributes [(''title'', '' a  b\<newline>\<newline>c '')] = [NodeAttribute ''title'' ''a  b c'']
   \<and> \<not> isNewline CHR ''a'' \<and> \<not> isWhiteSpace (hd ''a  b c'') \<and> \<not> isWhiteSpace (last ''a  b c'')"
proof -
  have n: "normalizeAttributes [(''title'', '' a  b\<newline>\<newline>c '')] = [NodeAttribute ''title'' ''a  b c'']"
    by code_simp
  have "\<forall>a\<in>set (normalizeAttributes [(''title'', '' a  b\<newline>\<newline>c '')]).
     (\<forall>c\<in>set (attr_value a). \<not> isNewline c)
     \<and> (attr_value a \<noteq> [] \<longrightarrow>
          \<not> isWhiteSpace (hd (attr_value a)) \<and> \<not> isWhiteSpace (last (attr_value a)))"
    by (rule normalizeAttributes_values)
  then show ?thesis unfolding n by simp
qed

end
